theory Spec2Isabelle
  imports Complex_Main
begin

section \<open>Structure model\<close>

text \<open>
  Modelled from the spec: the structure model (\<^verbatim>\<open>../../structure\<close>, not among the
  sources) on which the query combinators of the modifiers module work. A structure is
  an ordered collection of units; a unit carries an id, a kind, the ordered sequence of
  its element indices, the residue offset table of its model
  (\<^verbatim>\<open>unit.model.atomicHierarchy.residueAtomSegments.offsets\<close>) and the coordinate
  accessors of its conformation (\<^verbatim>\<open>unit.conformation\<close>, here one function giving the
  triple x, y, z of an element). Coordinates and radii are JavaScript numbers, taken as
  real numbers.
\<close>

datatype Kind = Atomic | Coarse

record Unit =
  unit_id :: nat
  kind :: Kind
  elements :: "nat list"
  residueOffsets :: "nat list"
  conformation :: "nat \<Rightarrow> real \<times> real \<times> real"

type_synonym Structure = "Unit list"

definition elementCount :: "Structure \<Rightarrow> nat" where
  "elementCount s = sum_list (map (\<lambda>u. length (elements u)) s)"

text \<open>The atoms of a structure: pairs of a unit id and an element of that unit.\<close>

definition atoms :: "Structure \<Rightarrow> (nat \<times> nat) set" where
  "atoms s = (\<Union>u \<in> set s. Pair (unit_id u) ` set (elements u))"

definition hasAtom :: "Structure \<Rightarrow> nat \<Rightarrow> nat \<Rightarrow> bool" where
  "hasAtom s i e = list_ex (\<lambda>u. unit_id u = i \<and> e \<in> set (elements u)) s"

definition unitById :: "Structure \<Rightarrow> nat \<Rightarrow> Unit option" where
  "unitById s i = find (\<lambda>p. unit_id p = i) s"

text \<open>
  A structure is a structure over a source structure when each of its units is the
  source's unit of the same id with a sequence of elements of its own.
\<close>

definition overSource :: "Structure \<Rightarrow> Structure \<Rightarrow> bool" where
  "overSource s source =
     (\<forall>u \<in> set s. \<exists>p. unitById source (unit_id u) = Some p \<and> u = p\<lparr>elements := elements u\<rparr>)"

section \<open>Errors and the evaluation context\<close>

text \<open>
  The errors a query can raise: \<^verbatim>\<open>Timeout\<close> is the error of
  \<^verbatim>\<open>ctx.throwIfTimedOut()\<close>; \<^verbatim>\<open>TypeError\<close> is what JavaScript raises when a
  method is called on \<^verbatim>\<open>undefined\<close>; \<^verbatim>\<open>InvariantViolation\<close> is a pop of the
  input-structure stack with nothing pushed. A computation takes the context and returns
  its result, an error or a value, with the context as it left it: the context is a
  mutable object, so what was done to it before an exception stays done.
\<close>

datatype error = Timeout | TypeError | InvariantViolation

record StructureElement =
  el_unit :: "Unit option"
  el_element :: "nat option"

definition StructureElement_create :: StructureElement where
  "StructureElement_create = \<lparr>el_unit = None, el_element = None\<rparr>"

text \<open>
  Modelled from the spec: the query context (\<^verbatim>\<open>../context\<close>, not among the sources).
  It holds the stack of input structures, whose top \<open>inputStructure\<close> is the structure
  queries operate on and whose rest \<open>inputStructureStack\<close> are the saved ones; the
  cursor \<open>element\<close> with its own stack of saved cursors; and the deadline. The wall
  clock is abstracted to \<open>checksLeft\<close>: \<open>None\<close> when there is no deadline, and
  \<open>Some n\<close> when the next \<open>n\<close> deadline checks still pass and every later one raises.
\<close>

record QueryContext =
  inputStructure :: Structure
  inputStructureStack :: "Structure list"
  element :: StructureElement
  currentElementStack :: "StructureElement list"
  checksLeft :: "nat option"

type_synonym 'a result = "(error + 'a) \<times> QueryContext"

definition andThen ::
  "(QueryContext \<Rightarrow> 'a result) \<Rightarrow> ('a \<Rightarrow> QueryContext \<Rightarrow> 'b result) \<Rightarrow> QueryContext \<Rightarrow> 'b result" where
  "andThen m f ctx = (case m ctx of (Inl e, c) \<Rightarrow> (Inl e, c) | (Inr a, c) \<Rightarrow> f a c)"

text \<open>
  Modelled from the spec: the operations of the context. The deadline check raises once
  the deadline has passed; entering a sub-scope pushes an input structure and leaving it
  pops, and a pop with nothing pushed fails; pushing the cursor saves it and installs a
  fresh one.
\<close>

definition throwIfTimedOut :: "QueryContext \<Rightarrow> unit result" where
  "throwIfTimedOut ctx =
     (case checksLeft ctx of
        None \<Rightarrow> (Inr (), ctx)
      | Some 0 \<Rightarrow> (Inl Timeout, ctx)
      | Some (Suc n) \<Rightarrow> (Inr (), ctx\<lparr>checksLeft := Some n\<rparr>))"

definition pushInputStructure :: "Structure \<Rightarrow> QueryContext \<Rightarrow> QueryContext" where
  "pushInputStructure s ctx =
     ctx\<lparr>inputStructureStack := inputStructure ctx # inputStructureStack ctx,
         inputStructure := s\<rparr>"

definition popInputStructure :: "QueryContext \<Rightarrow> unit result" where
  "popInputStructure ctx =
     (case inputStructureStack ctx of
        [] \<Rightarrow> (Inl InvariantViolation, ctx)
      | s # rest \<Rightarrow> (Inr (), ctx\<lparr>inputStructure := s, inputStructureStack := rest\<rparr>))"

definition pushCurrentElement :: "QueryContext \<Rightarrow> QueryContext" where
  "pushCurrentElement ctx =
     ctx\<lparr>currentElementStack := element ctx # currentElementStack ctx,
         element := StructureElement_create\<rparr>"

text \<open>
  In the code modelled here every pop of the cursor follows its push with nothing in
  between touching the cursor stack, so the pop of an empty stack is never reached; it
  leaves a fresh cursor.
\<close>

definition popCurrentElement :: "QueryContext \<Rightarrow> QueryContext" where
  "popCurrentElement ctx =
     (case currentElementStack ctx of
        [] \<Rightarrow> ctx\<lparr>element := StructureElement_create\<rparr>
      | c # rest \<Rightarrow> ctx\<lparr>element := c, currentElementStack := rest\<rparr>)"

text \<open>The scoped part of the context: the input-structure stack and the cursor.\<close>

definition sameScope :: "QueryContext \<Rightarrow> QueryContext \<Rightarrow> bool" where
  "sameScope c c' \<longleftrightarrow>
     inputStructure c' = inputStructure c \<and>
     inputStructureStack c' = inputStructureStack c \<and>
     element c' = element c \<and>
     currentElementStack c' = currentElementStack c"

section \<open>Selections and their builders\<close>

text \<open>
  Modelled from the spec: selections (\<^verbatim>\<open>../selection\<close>, not among the sources). A
  selection is either a singleton, one structure tagged with the input structure it
  derives from, or a list of structures; \<open>forEach\<close> visits its structures in order
  with their index, \<open>structureCount\<close> counts them, \<open>Empty\<close> is the selection of no
  structures for a given input structure.
\<close>

datatype StructureSelection =
    Singletons Structure Structure
  | Sequence Structure "Structure list"

fun sourceOf :: "StructureSelection \<Rightarrow> Structure" where
  "sourceOf (Singletons src s) = src"
| "sourceOf (Sequence src ss) = src"

fun structuresOf :: "StructureSelection \<Rightarrow> Structure list" where
  "structuresOf (Singletons src s) = [s]"
| "structuresOf (Sequence src ss) = ss"

definition structureCount :: "StructureSelection \<Rightarrow> nat" where
  "structureCount sel = length (structuresOf sel)"

definition Empty :: "Structure \<Rightarrow> StructureSelection" where
  "Empty src = Sequence src []"

text \<open>The element set of a selection: the atoms of its structures.\<close>

definition selectionAtoms :: "StructureSelection \<Rightarrow> (nat \<times> nat) set" where
  "selectionAtoms sel = (\<Union>s \<in> set (structuresOf sel). atoms s)"

text \<open>
  \<open>forEach\<close> with a callback that updates an accumulator and the context and may raise:
  the iteration stops at the first error.
\<close>

fun forEachFrom ::
  "nat \<Rightarrow> Structure list \<Rightarrow> (Structure \<Rightarrow> nat \<Rightarrow> 'a \<Rightarrow> QueryContext \<Rightarrow> 'a result) \<Rightarrow>
   'a \<Rightarrow> QueryContext \<Rightarrow> 'a result" where
  "forEachFrom sI [] fn acc ctx = (Inr acc, ctx)"
| "forEachFrom sI (s # ss) fn acc ctx =
     (case fn s sI acc ctx of
        (Inl e, c) \<Rightarrow> (Inl e, c)
      | (Inr acc', c) \<Rightarrow> forEachFrom (Suc sI) ss fn acc' c)"

definition forEach ::
  "StructureSelection \<Rightarrow> (Structure \<Rightarrow> nat \<Rightarrow> 'a \<Rightarrow> QueryContext \<Rightarrow> 'a result) \<Rightarrow>
   'a \<Rightarrow> QueryContext \<Rightarrow> 'a result" where
  "forEach sel fn acc ctx = forEachFrom 0 (structuresOf sel) fn acc ctx"

text \<open>
  Modelled from the spec: the selection builders (\<^verbatim>\<open>../utils/builders\<close>, not among
  the sources). The linear builder appends; the unique builder skips a structure whose
  content (unit ids and elements) it already holds. Both keep insertion order.
\<close>

record SelectionBuilder =
  sb_source :: Structure
  sb_structures :: "Structure list"

definition content :: "Structure \<Rightarrow> (nat \<times> nat list) list" where
  "content s = map (\<lambda>u. (unit_id u, elements u)) s"

definition LinearBuilder :: "Structure \<Rightarrow> SelectionBuilder" where
  "LinearBuilder src = \<lparr>sb_source = src, sb_structures = []\<rparr>"

definition UniqueBuilder :: "Structure \<Rightarrow> SelectionBuilder" where
  "UniqueBuilder src = \<lparr>sb_source = src, sb_structures = []\<rparr>"

definition linearAdd :: "SelectionBuilder \<Rightarrow> Structure \<Rightarrow> SelectionBuilder" where
  "linearAdd b s = b\<lparr>sb_structures := sb_structures b @ [s]\<rparr>"

definition uniqueAdd :: "SelectionBuilder \<Rightarrow> Structure \<Rightarrow> SelectionBuilder" where
  "uniqueAdd b s =
     (if content s \<in> set (map content (sb_structures b)) then b
      else b\<lparr>sb_structures := sb_structures b @ [s]\<rparr>)"

definition getSelection :: "SelectionBuilder \<Rightarrow> StructureSelection" where
  "getSelection b = Sequence (sb_source b) (sb_structures b)"

section \<open>Subset builders\<close>

text \<open>
  Modelled from the spec: the subset builders (\<^verbatim>\<open>structure/util/subset-builder\<close>
  and \<^verbatim>\<open>unique-subset-builder\<close>, not among the sources). A builder accumulates, for
  its parent structure, unit ids with element sequences. Elements added between
  \<open>beginUnit\<close> and \<open>commitUnit\<close> are committed without duplicates in ascending
  order; \<open>setUnit\<close> copies an element sequence as it is; \<open>addToUnit\<close> records one
  element against its unit with no begin and commit, at most once. \<open>getStructure\<close>
  gives, for each recorded unit id in insertion order, the parent's unit of that id with
  the recorded elements. Each builder of the code modelled here is finished exactly
  once, after its last addition, so the misuse errors of the spec are not reached.
\<close>

record SubsetBuilder =
  parent :: Structure
  committed :: "(nat \<times> nat list) list"
  currentUnit :: "(nat \<times> nat list) option"

definition subsetBuilder :: "Structure \<Rightarrow> SubsetBuilder" where
  "subsetBuilder src = \<lparr>parent = src, committed = [], currentUnit = None\<rparr>"

definition setUnit :: "SubsetBuilder \<Rightarrow> nat \<Rightarrow> nat list \<Rightarrow> SubsetBuilder" where
  "setUnit b i es = b\<lparr>committed := committed b @ [(i, es)]\<rparr>"

definition beginUnit :: "SubsetBuilder \<Rightarrow> nat \<Rightarrow> SubsetBuilder" where
  "beginUnit b i = b\<lparr>currentUnit := Some (i, [])\<rparr>"

definition addElement :: "SubsetBuilder \<Rightarrow> nat \<Rightarrow> SubsetBuilder" where
  "addElement b e =
     (case currentUnit b of
        None \<Rightarrow> b
      | Some (i, es) \<Rightarrow> b\<lparr>currentUnit := Some (i, es @ [e])\<rparr>)"

definition commitUnit :: "SubsetBuilder \<Rightarrow> SubsetBuilder" where
  "commitUnit b =
     (case currentUnit b of
        None \<Rightarrow> b
      | Some (i, es) \<Rightarrow>
          b\<lparr>committed := committed b @ [(i, sort (remdups es))], currentUnit := None\<rparr>)"

definition addToUnit :: "SubsetBuilder \<Rightarrow> nat \<Rightarrow> nat \<Rightarrow> SubsetBuilder" where
  "addToUnit b i e =
     (if i \<in> set (map fst (committed b))
      then b\<lparr>committed :=
               map (\<lambda>(j, es). if j = i then (j, sort (remdups (es @ [e]))) else (j, es))
                 (committed b)\<rparr>
      else b\<lparr>committed := committed b @ [(i, [e])]\<rparr>)"

definition getStructure :: "SubsetBuilder \<Rightarrow> Structure" where
  "getStructure b =
     List.map_filter
       (\<lambda>(i, es). map_option (\<lambda>p. p\<lparr>elements := es\<rparr>) (unitById (parent b) i))
       (committed b)"

section \<open>Residue segmentation\<close>

text \<open>
  Modelled from the spec: \<^verbatim>\<open>Segmentation.transientSegments\<close> (\<^verbatim>\<open>mol-data/int\<close>,
  not among the sources). Segment \<open>i\<close> of an offset table spans
  \<open>[offsets[i], offsets[i+1])\<close>; the iterator walks the element sequence and yields the
  index of each residue it touches, once per contiguous run.
\<close>

definition segmentIndex :: "nat list \<Rightarrow> nat \<Rightarrow> nat option" where
  "segmentIndex offs e =
     find (\<lambda>i. offs ! i \<le> e \<and> e < offs ! Suc i) [0..<length offs - 1]"

definition transientSegments :: "nat list \<Rightarrow> nat list \<Rightarrow> nat list" where
  "transientSegments offs es = remdups_adj (List.map_filter (segmentIndex offs) es)"

text \<open>
  The range of the inner loop of \<^verbatim>\<open>getWholeResidues\<close>,
  \<^verbatim>\<open>for (j = offsets[rI]; j < offsets[rI + 1]; j++)\<close>: a read past the end of the
  table is \<^verbatim>\<open>undefined\<close>, the comparison is then false and the loop body never runs.
\<close>

definition residueRange :: "nat list \<Rightarrow> nat \<Rightarrow> nat list" where
  "residueRange offs rI =
     (if Suc rI < length offs then [offs ! rI..<offs ! Suc rI] else [])"

section \<open>Whole residues\<close>

text \<open>
  \<^verbatim>\<open>getWholeResidues\<close>, lines 18 to 43. A unit that is not atomic is copied and the
  loop continues before the deadline check; for an atomic unit the elements of every
  residue touched are added, the unit is committed and the deadline is checked.
\<close>

definition addResidues :: "nat list \<Rightarrow> nat list \<Rightarrow> SubsetBuilder \<Rightarrow> SubsetBuilder" where
  "addResidues offs es b =
     fold (\<lambda>rI b'. fold (\<lambda>j b''. addElement b'' j) (residueRange offs rI) b')
       (transientSegments offs es) b"

fun getWholeResidues_units ::
  "SubsetBuilder \<Rightarrow> Unit list \<Rightarrow> QueryContext \<Rightarrow> SubsetBuilder result" where
  "getWholeResidues_units builder [] ctx = (Inr builder, ctx)"
| "getWholeResidues_units builder (u # us) ctx =
     (if kind u \<noteq> Atomic
      then getWholeResidues_units (setUnit builder (unit_id u) (elements u)) us ctx
      else
        (let b1 = beginUnit builder (unit_id u);
             b2 = addResidues (residueOffsets u) (elements u) b1;
             b3 = commitUnit b2
         in andThen throwIfTimedOut (\<lambda>_. getWholeResidues_units b3 us) ctx))"

definition getWholeResidues :: "Structure \<Rightarrow> Structure \<Rightarrow> QueryContext \<Rightarrow> Structure result" where
  "getWholeResidues source structure =
     andThen (getWholeResidues_units (subsetBuilder source) structure)
       (\<lambda>builder ctx. (Inr (getStructure builder), ctx))"

text \<open>
  A query is a function of the context. \<^verbatim>\<open>wholeResidues\<close>, lines 45 to 58, expands
  the structure of a singleton, and each structure of a list into a unique builder.
\<close>

type_synonym StructureQuery = "QueryContext \<Rightarrow> StructureSelection result"

definition wholeResidues_add ::
  "Structure \<Rightarrow> nat \<Rightarrow> SelectionBuilder \<Rightarrow> QueryContext \<Rightarrow> SelectionBuilder result" where
  "wholeResidues_add s sI builder ctx =
     andThen (getWholeResidues (inputStructure ctx) s)
       (\<lambda>r c. (Inr (uniqueAdd builder r), c)) ctx"

definition wholeResidues :: "StructureQuery \<Rightarrow> StructureQuery" where
  "wholeResidues query =
     andThen query (\<lambda>inner ctx.
       case inner of
         Singletons src s \<Rightarrow>
           andThen (getWholeResidues (inputStructure ctx) s)
             (\<lambda>r c. (Inr (Singletons (inputStructure ctx) r), c)) ctx
       | Sequence src ss \<Rightarrow>
           andThen (forEachFrom 0 ss wholeResidues_add (UniqueBuilder (inputStructure ctx)))
             (\<lambda>builder c. (Inr (getSelection builder), c)) ctx)"

section \<open>Surroundings\<close>

text \<open>
  \<^verbatim>\<open>params.wholeResidues\<close> is optional: \<open>None\<close> is the absent field, which
  \<^verbatim>\<open>!!\<close> turns into false.
\<close>

record IncludeSurroundingsParams =
  radius :: real
  wholeResidues_flag :: "bool option"

text \<open>
  The spatial index \<^verbatim>\<open>source.lookup3d\<close> is a collaborator of which only the query
  contract is used: given a point and a radius it enumerates the atoms it finds, as
  pairs of a unit id and an element, and \<^verbatim>\<open>findIntoBuilder\<close> feeds each of them into
  the builder. The index is a parameter of the functions below.
\<close>

type_synonym Lookup3D = "real \<Rightarrow> real \<Rightarrow> real \<Rightarrow> real \<Rightarrow> (nat \<times> nat) list"

definition StructureUniqueSubsetBuilder :: "Structure \<Rightarrow> SubsetBuilder" where
  "StructureUniqueSubsetBuilder src = \<lparr>parent = src, committed = [], currentUnit = None\<rparr>"

definition findIntoBuilder ::
  "Lookup3D \<Rightarrow> real \<Rightarrow> real \<Rightarrow> real \<Rightarrow> real \<Rightarrow> SubsetBuilder \<Rightarrow> SubsetBuilder" where
  "findIntoBuilder lookup px py pz r builder =
     fold (\<lambda>(i, e) b. addToUnit b i e) (lookup px py pz r) builder"

text \<open>
  Modelled from the spec: a spatial index that enumerates, over the units of the source
  in order, every element within the radius of the query point.
\<close>

definition withinRadius :: "Structure \<Rightarrow> Lookup3D" where
  "withinRadius source px py pz r =
     concat (map (\<lambda>u. map (Pair (unit_id u))
       (filter (\<lambda>e. case conformation u e of (ex, ey, ez) \<Rightarrow>
          0 \<le> r \<and> (ex - px)\<^sup>2 + (ey - py)\<^sup>2 + (ez - pz)\<^sup>2 \<le> r\<^sup>2) (elements u))) source)"

text \<open>
  \<^verbatim>\<open>getIncludeSurroundings\<close>, lines 67 to 83: for each unit, the index is queried at
  the position of every element with the radius as given, then the deadline is checked;
  no parameter is validated. \<^verbatim>\<open>includeSurroundings\<close>, lines 85 to 100.
\<close>

definition findUnit :: "Lookup3D \<Rightarrow> real \<Rightarrow> Unit \<Rightarrow> SubsetBuilder \<Rightarrow> SubsetBuilder" where
  "findUnit lookup r u builder =
     fold (\<lambda>e b. case conformation u e of (px, py, pz) \<Rightarrow> findIntoBuilder lookup px py pz r b)
       (elements u) builder"

fun getIncludeSurroundings_units ::
  "Lookup3D \<Rightarrow> real \<Rightarrow> SubsetBuilder \<Rightarrow> Unit list \<Rightarrow> QueryContext \<Rightarrow> SubsetBuilder result" where
  "getIncludeSurroundings_units lookup r builder [] ctx = (Inr builder, ctx)"
| "getIncludeSurroundings_units lookup r builder (u # us) ctx =
     (let b1 = findUnit lookup r u builder
      in andThen throwIfTimedOut (\<lambda>_. getIncludeSurroundings_units lookup r b1 us) ctx)"

definition getIncludeSurroundings ::
  "(Structure \<Rightarrow> Lookup3D) \<Rightarrow> Structure \<Rightarrow> Structure \<Rightarrow> IncludeSurroundingsParams \<Rightarrow>
   QueryContext \<Rightarrow> Structure result" where
  "getIncludeSurroundings lookup3d source structure params =
     andThen
       (getIncludeSurroundings_units (lookup3d source) (radius params)
          (StructureUniqueSubsetBuilder source) structure)
       (\<lambda>builder ctx.
          if wholeResidues_flag params = Some True
          then getWholeResidues source (getStructure builder) ctx
          else (Inr (getStructure builder), ctx))"

definition includeSurroundings_add ::
  "(Structure \<Rightarrow> Lookup3D) \<Rightarrow> IncludeSurroundingsParams \<Rightarrow> Structure \<Rightarrow> nat \<Rightarrow>
   SelectionBuilder \<Rightarrow> QueryContext \<Rightarrow> SelectionBuilder result" where
  "includeSurroundings_add lookup3d params s sI builder ctx =
     andThen (getIncludeSurroundings lookup3d (inputStructure ctx) s params)
       (\<lambda>r c. (Inr (uniqueAdd builder r), c)) ctx"

definition includeSurroundings ::
  "(Structure \<Rightarrow> Lookup3D) \<Rightarrow> StructureQuery \<Rightarrow> IncludeSurroundingsParams \<Rightarrow> StructureQuery" where
  "includeSurroundings lookup3d query params =
     andThen query (\<lambda>inner ctx.
       case inner of
         Singletons src s \<Rightarrow>
           andThen (getIncludeSurroundings lookup3d (inputStructure ctx) s params)
             (\<lambda>surr c. (Inr (Singletons (inputStructure c) surr), c)) ctx
       | Sequence src ss \<Rightarrow>
           andThen
             (forEachFrom 0 ss (includeSurroundings_add lookup3d params)
                (UniqueBuilder (inputStructure ctx)))
             (\<lambda>builder c. (Inr (getSelection builder), c)) ctx)"

section \<open>Nested queries\<close>

text \<open>
  \<^verbatim>\<open>querySelection\<close>, lines 102 to 118: each structure of the outer selection is
  pushed as input structure, the inner query is evaluated, its structures are added, the
  input structure is popped, and the deadline is checked when the index is a multiple of
  10. Push and pop are plain statements: an exception in between skips the pop.
  \<open>checkEvery\<close> is the guarded deadline check
  \<^verbatim>\<open>if (sI % n === 0) ctx.throwIfTimedOut()\<close>.
\<close>

definition checkEvery :: "nat \<Rightarrow> nat \<Rightarrow> QueryContext \<Rightarrow> unit result" where
  "checkEvery n sI ctx = (if sI mod n = 0 then throwIfTimedOut ctx else (Inr (), ctx))"

definition addAll :: "StructureSelection \<Rightarrow> SelectionBuilder \<Rightarrow> SelectionBuilder" where
  "addAll sel ret = fold (\<lambda>s b. uniqueAdd b s) (structuresOf sel) ret"

definition querySelection_step ::
  "StructureQuery \<Rightarrow> Structure \<Rightarrow> nat \<Rightarrow> SelectionBuilder \<Rightarrow> QueryContext \<Rightarrow>
   SelectionBuilder result" where
  "querySelection_step query s sI ret ctx =
     andThen query (\<lambda>inner.
       let ret' = addAll inner ret
       in andThen popInputStructure (\<lambda>_.
            andThen (checkEvery 10 sI) (\<lambda>_ c. (Inr ret', c))))
       (pushInputStructure s ctx)"

definition querySelection :: "StructureQuery \<Rightarrow> StructureQuery \<Rightarrow> StructureQuery" where
  "querySelection selection query =
     andThen selection (\<lambda>targetSel ctx.
       if structureCount targetSel = 0 then (Inr targetSel, ctx)
       else
         andThen (forEach targetSel (querySelection_step query) (UniqueBuilder (inputStructure ctx)))
           (\<lambda>ret c. (Inr (getSelection ret), c)) ctx)"

section \<open>Set algebra\<close>

text \<open>
  Modelled from the spec: the element-wise intersection, subtraction and union of
  structures (\<^verbatim>\<open>../utils/structure-set\<close> and \<^verbatim>\<open>StructureSelection.unionStructure\<close>,
  not among the sources). Intersection and subtraction keep the units of their first
  argument that still have elements; the union of a selection merges the units of its
  structures by id.
\<close>

definition nonEmptyUnits :: "Structure \<Rightarrow> Structure" where
  "nonEmptyUnits s = filter (\<lambda>u. elements u \<noteq> []) s"

definition structureIntersect :: "Structure \<Rightarrow> Structure \<Rightarrow> Structure" where
  "structureIntersect a b =
     nonEmptyUnits (map (\<lambda>u. u\<lparr>elements := filter (hasAtom b (unit_id u)) (elements u)\<rparr>) a)"

definition structureSubtract :: "Structure \<Rightarrow> Structure \<Rightarrow> Structure" where
  "structureSubtract a b =
     nonEmptyUnits
       (map (\<lambda>u. u\<lparr>elements := filter (\<lambda>e. \<not> hasAtom b (unit_id u) e) (elements u)\<rparr>) a)"

definition addUnitTo :: "Unit \<Rightarrow> Structure \<Rightarrow> Structure" where
  "addUnitTo u acc =
     (if unit_id u \<in> set (map unit_id acc)
      then map (\<lambda>v. if unit_id v = unit_id u
                    then v\<lparr>elements := sort (remdups (elements v @ elements u))\<rparr> else v) acc
      else acc @ [u])"

definition structureUnion :: "Structure \<Rightarrow> Structure \<Rightarrow> Structure" where
  "structureUnion a b = fold addUnitTo b a"

definition unionStructure :: "StructureSelection \<Rightarrow> Structure" where
  "unionStructure sel = fold (\<lambda>s acc. structureUnion acc s) (structuresOf sel) []"

definition intersectBy_step ::
  "Structure \<Rightarrow> Structure \<Rightarrow> nat \<Rightarrow> SelectionBuilder \<Rightarrow> QueryContext \<Rightarrow> SelectionBuilder result" where
  "intersectBy_step unionBy s sI ret ctx =
     (let ii = structureIntersect unionBy s;
          ret' = (if elementCount ii \<noteq> 0 then uniqueAdd ret ii else ret)
      in andThen (checkEvery 50 sI) (\<lambda>_ c. (Inr ret', c)) ctx)"

definition intersectBy :: "StructureQuery \<Rightarrow> StructureQuery \<Rightarrow> StructureQuery" where
  "intersectBy query byq =
     andThen query (\<lambda>selection ctx.
       if structureCount selection = 0 then (Inr selection, ctx)
       else
         andThen byq (\<lambda>bySel c.
           if structureCount bySel = 0 then (Inr (Empty (inputStructure c)), c)
           else
             andThen
               (forEach selection (intersectBy_step (unionStructure bySel))
                  (UniqueBuilder (inputStructure c)))
               (\<lambda>ret c'. (Inr (getSelection ret), c')) c) ctx)"

definition exceptBy_step ::
  "Structure \<Rightarrow> Structure \<Rightarrow> nat \<Rightarrow> SelectionBuilder \<Rightarrow> QueryContext \<Rightarrow> SelectionBuilder result" where
  "exceptBy_step subtractBy s sI ret ctx =
     (let diff = structureSubtract s subtractBy;
          ret' = (if elementCount diff \<noteq> 0 then uniqueAdd ret diff else ret)
      in andThen (checkEvery 50 sI) (\<lambda>_ c. (Inr ret', c)) ctx)"

definition exceptBy :: "StructureQuery \<Rightarrow> StructureQuery \<Rightarrow> StructureQuery" where
  "exceptBy query byq =
     andThen query (\<lambda>selection ctx.
       if structureCount selection = 0 then (Inr selection, ctx)
       else
         andThen byq (\<lambda>bySel c.
           if structureCount bySel = 0 then (Inr (Empty (inputStructure c)), c)
           else
             andThen
               (forEach selection (exceptBy_step (unionStructure bySel))
                  (UniqueBuilder (inputStructure c)))
               (\<lambda>ret c'. (Inr (getSelection ret), c')) c) ctx)"

text \<open>The builder of \<^verbatim>\<open>union\<close> is created before the query is evaluated.\<close>

definition union_q :: "StructureQuery \<Rightarrow> StructureQuery" where
  "union_q query ctx =
     (let ret = LinearBuilder (inputStructure ctx)
      in andThen query
           (\<lambda>sel c. (Inr (getSelection (linearAdd ret (unionStructure sel))), c)) ctx)"

section \<open>Property expansion\<close>

text \<open>
  A property is a pure function of the context, read at the current cursor. The map from
  property values to the selection indices that claimed them is a JavaScript
  \<^verbatim>\<open>Map\<close> of \<^verbatim>\<open>UniqueArray\<close>s: an index is appended to the array of a value
  unless the array has it already.
\<close>

type_synonym 'v QueryFn = "QueryContext \<Rightarrow> 'v"

definition UniqueArray_add :: "nat list \<Rightarrow> nat \<Rightarrow> nat list" where
  "UniqueArray_add arr v = (if v \<in> set arr then arr else arr @ [v])"

definition claim :: "('v \<rightharpoonup> nat list) \<Rightarrow> 'v \<Rightarrow> nat \<Rightarrow> ('v \<rightharpoonup> nat list)" where
  "claim m p sI =
     (case m p of
        None \<Rightarrow> m(p \<mapsto> UniqueArray_add [] sI)
      | Some arr \<Rightarrow> m(p \<mapsto> UniqueArray_add arr sI))"

definition setCursorUnit :: "Unit \<Rightarrow> QueryContext \<Rightarrow> QueryContext" where
  "setCursorUnit u ctx = ctx\<lparr>element := (element ctx)\<lparr>el_unit := Some u\<rparr>\<rparr>"

definition setCursorElement :: "nat \<Rightarrow> QueryContext \<Rightarrow> QueryContext" where
  "setCursorElement e ctx = ctx\<lparr>element := (element ctx)\<lparr>el_element := Some e\<rparr>\<rparr>"

text \<open>First pass, the body for one structure: lines 176 to 190.\<close>

definition claimUnit ::
  "'v QueryFn \<Rightarrow> nat \<Rightarrow> Unit \<Rightarrow> ('v \<rightharpoonup> nat list) \<times> QueryContext \<Rightarrow>
   ('v \<rightharpoonup> nat list) \<times> QueryContext" where
  "claimUnit property sI u st =
     fold (\<lambda>e (m, c). let c' = setCursorElement e c in (claim m (property c') sI, c'))
       (elements u) (fst st, setCursorUnit u (snd st))"

definition claimStructure ::
  "'v QueryFn \<Rightarrow> nat \<Rightarrow> Structure \<Rightarrow> ('v \<rightharpoonup> nat list) \<times> QueryContext \<Rightarrow>
   ('v \<rightharpoonup> nat list) \<times> QueryContext" where
  "claimStructure property sI s st = fold (claimUnit property sI) s st"

text \<open>
  \<^verbatim>\<open>builders[sI] = ...\<close> on a JavaScript array: an index past the end extends the
  array and leaves holes (\<open>None\<close>) in between.
\<close>

definition arrayAssign :: "'a option list \<Rightarrow> nat \<Rightarrow> 'a \<Rightarrow> 'a option list" where
  "arrayAssign xs i v =
     (if i < length xs then xs[i := Some v]
      else xs @ replicate (i - length xs) None @ [Some v])"

definition expandProperty_claim ::
  "'v QueryFn \<Rightarrow> Structure \<Rightarrow> nat \<Rightarrow> ('v \<rightharpoonup> nat list) \<times> SubsetBuilder option list \<Rightarrow>
   QueryContext \<Rightarrow> (('v \<rightharpoonup> nat list) \<times> SubsetBuilder option list) result" where
  "expandProperty_claim property s sI acc ctx =
     (case claimStructure property sI s (fst acc, ctx) of (m, c) \<Rightarrow>
        let builders = arrayAssign (snd acc) sI (subsetBuilder (inputStructure c))
        in andThen (checkEvery 10 sI) (\<lambda>_ c'. (Inr (m, builders), c')) c)"

text \<open>
  Second pass, the statement of line 207,
  \<^verbatim>\<open>builders[indices[i]].addToUnit(unit.id, elements[i])\<close>, with \<open>i\<close> the position of
  the element in its unit: \<^verbatim>\<open>indices[i]\<close> past the end of \<open>indices\<close> is
  \<^verbatim>\<open>undefined\<close>, \<^verbatim>\<open>builders[undefined]\<close> and a builder index past the end or at a
  hole are \<^verbatim>\<open>undefined\<close>, and the method call on \<^verbatim>\<open>undefined\<close> raises.
\<close>

definition addAtIndex ::
  "nat list \<Rightarrow> nat \<Rightarrow> nat \<Rightarrow> nat \<Rightarrow> SubsetBuilder option list \<Rightarrow>
   error + SubsetBuilder option list" where
  "addAtIndex indices i uid e builders =
     (if i < length indices
      then (let k = indices ! i in
            if k < length builders
            then (case builders ! k of
                    None \<Rightarrow> Inl TypeError
                  | Some b \<Rightarrow> Inr (builders[k := Some (addToUnit b uid e)]))
            else Inl TypeError)
      else Inl TypeError)"

text \<open>The loop of lines 206 to 208 runs the statement once for every entry of \<open>indices\<close>.\<close>

fun addRepeated ::
  "nat \<Rightarrow> nat list \<Rightarrow> nat \<Rightarrow> nat \<Rightarrow> nat \<Rightarrow> SubsetBuilder option list \<Rightarrow>
   error + SubsetBuilder option list" where
  "addRepeated 0 indices i uid e builders = Inr builders"
| "addRepeated (Suc n) indices i uid e builders =
     (case addAtIndex indices i uid e builders of
        Inl err \<Rightarrow> Inl err
      | Inr bs \<Rightarrow> addRepeated n indices i uid e bs)"

fun expandProperty_elements ::
  "'v QueryFn \<Rightarrow> ('v \<rightharpoonup> nat list) \<Rightarrow> nat \<Rightarrow> nat \<Rightarrow> nat list \<Rightarrow> SubsetBuilder option list \<Rightarrow>
   QueryContext \<Rightarrow> (SubsetBuilder option list) result" where
  "expandProperty_elements property m uid i [] builders ctx = (Inr builders, ctx)"
| "expandProperty_elements property m uid i (e # es) builders ctx =
     (let c = setCursorElement e ctx in
      case m (property c) of
        None \<Rightarrow> expandProperty_elements property m uid (Suc i) es builders c
      | Some indices \<Rightarrow>
          (case addRepeated (length indices) indices i uid e builders of
             Inl err \<Rightarrow> (Inl err, c)
           | Inr bs \<Rightarrow> expandProperty_elements property m uid (Suc i) es bs c))"

fun expandProperty_units ::
  "'v QueryFn \<Rightarrow> ('v \<rightharpoonup> nat list) \<Rightarrow> Unit list \<Rightarrow> SubsetBuilder option list \<Rightarrow>
   QueryContext \<Rightarrow> (SubsetBuilder option list) result" where
  "expandProperty_units property m [] builders ctx = (Inr builders, ctx)"
| "expandProperty_units property m (u # us) builders ctx =
     (case expandProperty_elements property m (unit_id u) 0 (elements u) builders
             (setCursorUnit u ctx) of
        (Inl err, c) \<Rightarrow> (Inl err, c)
      | (Inr bs, c) \<Rightarrow> expandProperty_units property m us bs c)"

text \<open>
  The final loop \<^verbatim>\<open>for (const b of builders) ret.add(b.getStructure())\<close>: a hole of
  the array is \<^verbatim>\<open>undefined\<close> and the call raises.
\<close>

fun addStructures :: "SubsetBuilder option list \<Rightarrow> SelectionBuilder \<Rightarrow> error + SelectionBuilder" where
  "addStructures [] ret = Inr ret"
| "addStructures (None # bs) ret = Inl TypeError"
| "addStructures (Some b # bs) ret = addStructures bs (uniqueAdd ret (getStructure b))"

definition expandProperty :: "StructureQuery \<Rightarrow> 'v QueryFn \<Rightarrow> StructureQuery" where
  "expandProperty query property =
     andThen query (\<lambda>src ctx.
       andThen (forEach src (expandProperty_claim property) (Map.empty, []))
         (\<lambda>acc c.
            andThen (expandProperty_units property (fst acc) (inputStructure c) (snd acc))
              (\<lambda>builders c'.
                 let c'' = popCurrentElement c' in
                 case addStructures builders (UniqueBuilder (inputStructure c'')) of
                   Inl err \<Rightarrow> (Inl err, c'')
                 | Inr ret \<Rightarrow> (Inr (getSelection ret), c'')) c)
         (pushCurrentElement ctx))"

section \<open>Notions used in the statements and proofs\<close>

text \<open>
  The elements that residue expansion gives for a unit: the unit's own elements when it
  is not atomic, else the elements of every residue its elements touch, ascending.
\<close>

definition expandedElements :: "nat list \<Rightarrow> nat list \<Rightarrow> nat list" where
  "expandedElements offs es =
     sort (remdups (concat (map (residueRange offs) (transientSegments offs es))))"

definition wholeElements :: "Unit \<Rightarrow> nat list" where
  "wholeElements u =
     (if kind u \<noteq> Atomic then elements u
      else expandedElements (residueOffsets u) (elements u))"

text \<open>Element \<open>e\<close> lies in residue \<open>r\<close> of an offset table.\<close>

definition inResidue :: "nat list \<Rightarrow> nat \<Rightarrow> nat \<Rightarrow> bool" where
  "inResidue offs r e \<longleftrightarrow> Suc r < length offs \<and> offs ! r \<le> e \<and> e < offs ! Suc r"

text \<open>The atoms held by a selection builder and by a subset builder.\<close>

definition builderAtoms :: "SelectionBuilder \<Rightarrow> (nat \<times> nat) set" where
  "builderAtoms b = (\<Union>t \<in> set (sb_structures b). atoms t)"

definition committedAtoms :: "SubsetBuilder \<Rightarrow> (nat \<times> nat) set" where
  "committedAtoms b = {(i, e). \<exists>es. (i, es) \<in> set (committed b) \<and> e \<in> set es}"

text \<open>
  Two contexts that differ at most in the deadline checks left; at most in the cursor;
  and two contexts with the same input structure and the same two stacks.
\<close>

definition onlyChecks :: "QueryContext \<Rightarrow> QueryContext \<Rightarrow> bool" where
  "onlyChecks c c' \<longleftrightarrow> c' = c\<lparr>checksLeft := checksLeft c'\<rparr>"

definition onlyCursor :: "QueryContext \<Rightarrow> QueryContext \<Rightarrow> bool" where
  "onlyCursor c c' \<longleftrightarrow> c' = c\<lparr>element := element c'\<rparr>"

definition sameStacks :: "QueryContext \<Rightarrow> QueryContext \<Rightarrow> bool" where
  "sameStacks c c' \<longleftrightarrow>
     inputStructure c' = inputStructure c \<and>
     inputStructureStack c' = inputStructureStack c \<and>
     currentElementStack c' = currentElementStack c"

section \<open>Example inputs\<close>

text \<open>
  Two atomic units of ten atoms each, with residues of five atoms, and one coarse unit
  of three elements; the structure of the two atomic units and the structure of all
  three.
\<close>

definition unit0 :: Unit where
  "unit0 = \<lparr>unit_id = 0, kind = Atomic, elements = [0, 1, 2, 3, 4, 5, 6, 7, 8, 9],
            residueOffsets = [0, 5, 10], conformation = (\<lambda>e. (real e, 0, 0))\<rparr>"

definition unit1 :: Unit where
  "unit1 = \<lparr>unit_id = 1, kind = Atomic, elements = [0, 1, 2, 3, 4, 5, 6, 7, 8, 9],
            residueOffsets = [0, 5, 10], conformation = (\<lambda>e. (real e, 5, 0))\<rparr>"

definition unit2 :: Unit where
  "unit2 = \<lparr>unit_id = 2, kind = Coarse, elements = [0, 1, 2],
            residueOffsets = [], conformation = (\<lambda>e. (real e, 9, 0))\<rparr>"

definition source20 :: Structure where
  "source20 = [unit0, unit1]"

definition sourceMixed :: Structure where
  "sourceMixed = [unit0, unit1, unit2]"

text \<open>
  A context with nothing pushed, for a given input structure and number of deadline
  checks left; a query that returns a given selection, and a query that raises.
\<close>

definition initialContext :: "Structure \<Rightarrow> nat option \<Rightarrow> QueryContext" where
  "initialContext s t =
     \<lparr>inputStructure = s, inputStructureStack = [], element = StructureElement_create,
      currentElementStack = [], checksLeft = t\<rparr>"

definition constQuery :: "StructureSelection \<Rightarrow> StructureQuery" where
  "constQuery sel ctx = (Inr sel, ctx)"

definition failing :: "error \<Rightarrow> StructureQuery" where
  "failing err ctx = (Inl err, ctx)"

definition queryA :: StructureQuery where
  "queryA = constQuery (Sequence source20
     [[unit0\<lparr>elements := [1, 2, 3]\<rparr>], [unit1\<lparr>elements := [4]\<rparr>]])"

definition queryB :: StructureQuery where
  "queryB = constQuery (Sequence source20 [[unit0\<lparr>elements := [2, 3, 4]\<rparr>]])"

text \<open>
  Two properties read at the cursor: the number of the residue of five atoms that holds
  the current element, and the current element itself.
\<close>

definition residueOf :: "nat QueryFn" where
  "residueOf ctx = (case el_element (element ctx) of None \<Rightarrow> 0 | Some e \<Rightarrow> e div 5)"

definition elementIndex :: "nat option QueryFn" where
  "elementIndex ctx = el_element (element ctx)"

section \<open>Basic facts\<close>

lemma andThen_Inr: "m ctx = (Inr a, c) \<Longrightarrow> andThen m f ctx = f a c"
  by (simp add: andThen_def)

lemma andThen_Inl: "m ctx = (Inl e, c) \<Longrightarrow> andThen m f ctx = (Inl e, c)"
  by (simp add: andThen_def)

lemma structureCount_zero: "structureCount sel = 0 \<Longrightarrow> sel = Empty (sourceOf sel)"
  by (cases sel) (simp_all add: structureCount_def Empty_def)

lemma onlyChecks_refl: "onlyChecks c c"
  by (simp add: onlyChecks_def)

lemma onlyChecks_trans: "onlyChecks a b \<Longrightarrow> onlyChecks b c \<Longrightarrow> onlyChecks a c"
  unfolding onlyChecks_def
  by (metis (no_types, lifting) QueryContext.surjective QueryContext.update_convs(5))

lemma onlyChecks_sameScope: "onlyChecks c c' \<Longrightarrow> sameScope c c'"
  unfolding onlyChecks_def sameScope_def
  by (metis (no_types, lifting) QueryContext.select_convs(1-4) QueryContext.surjective
      QueryContext.update_convs(5))

lemma throwIfTimedOut_cases:
  "throwIfTimedOut c = (r, c') \<Longrightarrow> onlyChecks c c' \<and> (r = Inr () \<or> r = Inl Timeout)"
  by (auto simp: throwIfTimedOut_def onlyChecks_def split: option.splits nat.splits)

lemma throwIfTimedOut_None: "checksLeft c = None \<Longrightarrow> throwIfTimedOut c = (Inr (), c)"
  by (simp add: throwIfTimedOut_def)

lemma throwIfTimedOut_zero: "checksLeft c = Some 0 \<Longrightarrow> throwIfTimedOut c = (Inl Timeout, c)"
  by (simp add: throwIfTimedOut_def)

section \<open>Whole residues: what the loop commits\<close>

lemma fold_addElement:
  "currentUnit b = Some (i, acc) \<Longrightarrow>
   fold (\<lambda>j b'. addElement b' j) js b = b\<lparr>currentUnit := Some (i, acc @ js)\<rparr>"
  by (induction js arbitrary: b acc) (simp_all add: addElement_def)

lemma fold_residues:
  "currentUnit b = Some (i, acc) \<Longrightarrow>
   fold (\<lambda>rI b'. fold (\<lambda>j b''. addElement b'' j) (residueRange offs rI) b') rs b
     = b\<lparr>currentUnit := Some (i, acc @ concat (map (residueRange offs) rs))\<rparr>"
proof (induction rs arbitrary: b acc)
  case Nil
  then show ?case by simp
next
  case (Cons r rs)
  have "currentUnit (b\<lparr>currentUnit := Some (i, acc @ residueRange offs r)\<rparr>)
          = Some (i, acc @ residueRange offs r)" by simp
  from Cons.IH [OF this] Cons.prems show ?case
    by (simp add: fold_addElement)
qed

lemma commit_residues:
  "commitUnit (addResidues offs es (beginUnit b i))
     = b\<lparr>committed := committed b @ [(i, expandedElements offs es)], currentUnit := None\<rparr>"
proof -
  have "currentUnit (beginUnit b i) = Some (i, [])" by (simp add: beginUnit_def)
  then have "addResidues offs es (beginUnit b i)
      = (beginUnit b i)\<lparr>currentUnit :=
           Some (i, [] @ concat (map (residueRange offs) (transientSegments offs es)))\<rparr>"
    unfolding addResidues_def by (rule fold_residues)
  then show ?thesis
    by (simp add: commitUnit_def beginUnit_def expandedElements_def)
qed

lemma units_committed:
  "getWholeResidues_units b us c = (Inr b', c') \<Longrightarrow>
   committed b' = committed b @ map (\<lambda>u. (unit_id u, wholeElements u)) us \<and> parent b' = parent b"
proof (induction us arbitrary: b c)
  case Nil
  then show ?case by simp
next
  case (Cons u us)
  show ?case
  proof (cases "kind u = Atomic")
    case False
    with Cons.prems have "getWholeResidues_units (setUnit b (unit_id u) (elements u)) us c = (Inr b', c')"
      by simp
    from Cons.IH [OF this] False show ?thesis
      by (simp add: setUnit_def wholeElements_def)
  next
    case True
    let ?b3 = "b\<lparr>committed := committed b @ [(unit_id u, expandedElements (residueOffsets u) (elements u))],
                  currentUnit := None\<rparr>"
    from Cons.prems True obtain c1 where
      "getWholeResidues_units ?b3 us c1 = (Inr b', c')"
      by (auto simp: andThen_def commit_residues Let_def split: prod.splits sum.splits)
    from Cons.IH [OF this] True show ?thesis
      by (simp add: wholeElements_def)
  qed
qed

lemma units_context:
  "getWholeResidues_units b us c = (r, c') \<Longrightarrow>
   onlyChecks c c' \<and> (\<forall>e. r = Inl e \<longrightarrow> e = Timeout)"
proof (induction us arbitrary: b c)
  case Nil
  then show ?case by (auto simp: onlyChecks_refl)
next
  case (Cons u us)
  show ?case
  proof (cases "kind u = Atomic")
    case False
    with Cons.prems have "getWholeResidues_units (setUnit b (unit_id u) (elements u)) us c = (r, c')"
      by simp
    from Cons.IH [OF this] show ?thesis .
  next
    case True
    obtain r1 c1 where t: "throwIfTimedOut c = (r1, c1)" by (cases "throwIfTimedOut c")
    note tc = throwIfTimedOut_cases [OF t]
    show ?thesis
    proof (cases r1)
      case (Inl e)
      with Cons.prems True t tc show ?thesis
        by (auto simp: andThen_def Let_def)
    next
      case (Inr x)
      with Cons.prems True t obtain b3 where
        "getWholeResidues_units b3 us c1 = (r, c')"
        by (auto simp: andThen_def Let_def)
      from Cons.IH [OF this] tc show ?thesis
        using onlyChecks_trans by blast
    qed
  qed
qed

section \<open>Short circuit on empty selections\<close>

text \<open>
  C5, as the claim states it, fails: the combinators do not associate the empty result
  with the current input structure, they return the selection of the outer query itself
  (lines 105, 123 and 143). Here the outer query yields the empty selection of the empty
  structure while the input structure is the one of twenty atoms: all three return that
  selection, which is not the empty selection of the input structure.
\<close>

theorem empty_selection_association_counterexample:
  "intersectBy (constQuery (Empty [])) (failing Timeout) (initialContext source20 None)
     = (Inr (Empty []), initialContext source20 None) \<and>
   exceptBy (constQuery (Empty [])) (failing Timeout) (initialContext source20 None)
     = (Inr (Empty []), initialContext source20 None) \<and>
   querySelection (constQuery (Empty [])) (failing Timeout) (initialContext source20 None)
     = (Inr (Empty []), initialContext source20 None) \<and>
   structureCount (Empty []) = 0 \<and>
   inputStructure (initialContext source20 None) = source20 \<and>
   Empty [] \<noteq> Empty source20"
  by (simp add: intersectBy_def exceptBy_def querySelection_def constQuery_def andThen_def
      structureCount_def Empty_def initialContext_def source20_def)

text \<open>
  C5, amended. When the outer query of \<open>intersectBy\<close>, \<open>exceptBy\<close> or
  \<open>querySelection\<close> yields a selection of zero structures, the combinator returns that
  very selection and the context as the outer query left it, whatever the second query
  is: the second query is not evaluated. The selection returned is the empty selection
  of the structure the outer query associated it with; it is the empty selection of the
  current input structure exactly when that structure is the current input structure.
  When the outer query yields structures and the \<open>by\<close> query yields none,
  \<open>intersectBy\<close> and \<open>exceptBy\<close> return the empty selection of the current input
  structure.
\<close>

theorem empty_selection_short_circuit:
  "(query ctx = (Inr sel, c1) \<and> structureCount sel = 0 \<longrightarrow>
      intersectBy query byq ctx = (Inr sel, c1) \<and>
      exceptBy query byq ctx = (Inr sel, c1) \<and>
      querySelection query byq ctx = (Inr sel, c1) \<and>
      sel = Empty (sourceOf sel) \<and>
      (sel = Empty (inputStructure c1) \<longleftrightarrow> sourceOf sel = inputStructure c1)) \<and>
   (query ctx = (Inr sel, c1) \<and> structureCount sel \<noteq> 0 \<and>
    byq c1 = (Inr bySel, c2) \<and> structureCount bySel = 0 \<longrightarrow>
      intersectBy query byq ctx = (Inr (Empty (inputStructure c2)), c2) \<and>
      exceptBy query byq ctx = (Inr (Empty (inputStructure c2)), c2))"
proof (intro conjI impI)
  assume h: "query ctx = (Inr sel, c1) \<and> structureCount sel = 0"
  then show "intersectBy query byq ctx = (Inr sel, c1)"
    by (simp add: intersectBy_def andThen_def)
  from h show "exceptBy query byq ctx = (Inr sel, c1)"
    by (simp add: exceptBy_def andThen_def)
  from h show "querySelection query byq ctx = (Inr sel, c1)"
    by (simp add: querySelection_def andThen_def)
  from h show e: "sel = Empty (sourceOf sel)"
    using structureCount_zero by blast
  show "(sel = Empty (inputStructure c1)) = (sourceOf sel = inputStructure c1)"
  proof
    assume "sel = Empty (inputStructure c1)"
    then have "sourceOf sel = sourceOf (Empty (inputStructure c1))" by simp
    then show "sourceOf sel = inputStructure c1" by (simp add: Empty_def)
  next
    assume "sourceOf sel = inputStructure c1"
    with e show "sel = Empty (inputStructure c1)" by simp
  qed
next
  assume h: "query ctx = (Inr sel, c1) \<and> structureCount sel \<noteq> 0 \<and>
    byq c1 = (Inr bySel, c2) \<and> structureCount bySel = 0"
  then show "intersectBy query byq ctx = (Inr (Empty (inputStructure c2)), c2)"
    by (simp add: intersectBy_def andThen_def)
  from h show "exceptBy query byq ctx = (Inr (Empty (inputStructure c2)), c2)"
    by (simp add: exceptBy_def andThen_def)
qed

theorem empty_selection_short_circuit_witness:
  "intersectBy (constQuery (Empty source20)) (failing Timeout) (initialContext source20 None)
     = (Inr (Empty source20), initialContext source20 None) \<and>
   exceptBy (constQuery (Empty source20)) (failing Timeout) (initialContext source20 None)
     = (Inr (Empty source20), initialContext source20 None) \<and>
   querySelection (constQuery (Empty source20)) (failing Timeout) (initialContext source20 None)
     = (Inr (Empty source20), initialContext source20 None) \<and>
   Empty source20 = Empty (inputStructure (initialContext source20 None)) \<and>
   intersectBy (constQuery (Singletons source20 source20)) (constQuery (Empty source20))
      (initialContext source20 None)
     = (Inr (Empty source20), initialContext source20 None) \<and>
   exceptBy (constQuery (Singletons source20 source20)) (constQuery (Empty source20))
      (initialContext source20 None)
     = (Inr (Empty source20), initialContext source20 None)"
  using empty_selection_short_circuit [of "constQuery (Empty source20)" "initialContext source20 None"
      "Empty source20" "initialContext source20 None" "failing Timeout"]
    empty_selection_short_circuit [of "constQuery (Singletons source20 source20)"
      "initialContext source20 None" "Singletons source20 source20" "initialContext source20 None"
      "constQuery (Empty source20)" "Empty source20" "initialContext source20 None"]
  by (simp add: constQuery_def structureCount_def Empty_def initialContext_def)

section \<open>Whole residues: the structure returned\<close>

lemma unitById_Some: "unitById s i = Some p \<Longrightarrow> unit_id p = i \<and> p \<in> set s"
  by (auto simp: unitById_def find_Some_iff)

lemma map_filter_all_Some:
  "(\<And>x. x \<in> set xs \<Longrightarrow> g x = Some (k x)) \<Longrightarrow> List.map_filter g xs = map k xs"
  by (induction xs) (simp_all add: List.map_filter_simps)

lemma getStructure_over:
  assumes "overSource us source" and "parent b = source"
    and "committed b = map (\<lambda>u. (unit_id u, f u)) us"
  shows "getStructure b = map (\<lambda>u. u\<lparr>elements := f u\<rparr>) us"
proof -
  have "List.map_filter
          (\<lambda>(i, es). map_option (\<lambda>p. p\<lparr>elements := es\<rparr>) (unitById source i))
          (map (\<lambda>u. (unit_id u, f u)) us)
        = List.map_filter
          (\<lambda>u. map_option (\<lambda>p. p\<lparr>elements := f u\<rparr>) (unitById source (unit_id u))) us"
    by (simp add: List.map_filter_def comp_def filter_map)
  also have "\<dots> = map (\<lambda>u. u\<lparr>elements := f u\<rparr>) us"
  proof (rule map_filter_all_Some)
    fix u assume "u \<in> set us"
    with assms(1) obtain p where p: "unitById source (unit_id u) = Some p"
      and u: "u = p\<lparr>elements := elements u\<rparr>"
      unfolding overSource_def by blast
    have "p\<lparr>elements := f u\<rparr> = u\<lparr>elements := f u\<rparr>"
      by (subst (2) u) simp
    with p show "map_option (\<lambda>p. p\<lparr>elements := f u\<rparr>) (unitById source (unit_id u))
        = Some (u\<lparr>elements := f u\<rparr>)" by simp
  qed
  finally show ?thesis using assms(2,3) by (simp add: getStructure_def)
qed

lemma getWholeResidues_over:
  assumes "overSource S source" and "getWholeResidues source S c = (Inr R, c')"
  shows "R = map (\<lambda>u. u\<lparr>elements := wholeElements u\<rparr>) S"
proof -
  from assms(2) obtain b where
    b: "getWholeResidues_units (subsetBuilder source) S c = (Inr b, c')" and R: "R = getStructure b"
    by (auto simp: getWholeResidues_def andThen_def split: prod.splits sum.splits)
  from units_committed [OF b] have "committed b = map (\<lambda>u. (unit_id u, wholeElements u)) S"
    and "parent b = source" by (simp_all add: subsetBuilder_def)
  with getStructure_over [OF assms(1)] R show ?thesis by simp
qed

lemma segmentIndex_Some: "segmentIndex offs e = Some r \<Longrightarrow> inResidue offs r e"
  by (auto simp: segmentIndex_def inResidue_def find_Some_iff)

lemma inResidue_unique:
  assumes "sorted offs" "inResidue offs r e" "inResidue offs r' e"
  shows "r = r'"
proof (rule ccontr)
  assume "r \<noteq> r'"
  then consider "r < r'" | "r' < r" by linarith
  then show False
  proof cases
    case 1
    then have "offs ! Suc r \<le> offs ! r'"
      using assms(1,3) by (simp add: inResidue_def sorted_nth_mono)
    with assms(2,3) show False by (simp add: inResidue_def)
  next
    case 2
    then have "offs ! Suc r' \<le> offs ! r"
      using assms(1,2) by (simp add: inResidue_def sorted_nth_mono)
    with assms(2,3) show False by (simp add: inResidue_def)
  qed
qed

lemma segmentIndex_defined:
  assumes "inResidue offs r e"
  shows "\<exists>r'. segmentIndex offs e = Some r'"
proof -
  have "r \<in> set [0..<length offs - 1]" using assms by (auto simp: inResidue_def)
  moreover have "offs ! r \<le> e \<and> e < offs ! Suc r" using assms by (simp add: inResidue_def)
  ultimately have "find (\<lambda>i. offs ! i \<le> e \<and> e < offs ! Suc i) [0..<length offs - 1] \<noteq> None"
    unfolding find_None_iff by blast
  then show ?thesis by (auto simp: segmentIndex_def)
qed

lemma segmentIndex_sorted:
  assumes "sorted offs"
  shows "segmentIndex offs e = Some r \<longleftrightarrow> inResidue offs r e"
proof
  assume "segmentIndex offs e = Some r" then show "inResidue offs r e" by (rule segmentIndex_Some)
next
  assume h: "inResidue offs r e"
  then obtain r' where r': "segmentIndex offs e = Some r'" using segmentIndex_defined by blast
  from inResidue_unique [OF assms h segmentIndex_Some [OF r']] r' show "segmentIndex offs e = Some r"
    by simp
qed

lemma set_residueRange: "set (residueRange offs r) = {j. inResidue offs r j}"
  by (auto simp: residueRange_def inResidue_def)

lemma set_transientSegments:
  "set (transientSegments offs es) = {r. \<exists>e \<in> set es. segmentIndex offs e = Some r}"
  by (force simp: transientSegments_def List.map_filter_def image_iff)

lemma set_expandedElements:
  "set (expandedElements offs es)
     = {j. \<exists>r. inResidue offs r j \<and> (\<exists>e \<in> set es. segmentIndex offs e = Some r)}"
  by (auto simp: expandedElements_def set_residueRange set_transientSegments)

lemma set_expandedElements_sorted:
  "sorted offs \<Longrightarrow>
   set (expandedElements offs es)
     = {j. \<exists>r. inResidue offs r j \<and> (\<exists>e \<in> set es. inResidue offs r e)}"
  by (simp add: set_expandedElements segmentIndex_sorted)

lemma expandedElements_cong:
  assumes "set (expandedElements offs es) = set (expandedElements offs es')"
  shows "expandedElements offs es = expandedElements offs es'"
proof -
  have "\<And>xs. expandedElements offs xs = sorted_list_of_set (set (expandedElements offs xs))"
  proof -
    fix xs
    let ?c = "concat (map (residueRange offs) (transientSegments offs xs))"
    have "set (sort (remdups ?c)) = set ?c" by simp
    then have "sorted_list_of_set (set (sort (remdups ?c))) = sort (remdups ?c)"
      by (simp only: sorted_list_of_set_sort_remdups)
    then show "expandedElements offs xs = sorted_list_of_set (set (expandedElements offs xs))"
      by (simp only: expandedElements_def)
  qed
  then show ?thesis using assms by metis
qed

lemma expandedElements_idem:
  assumes "sorted offs"
  shows "expandedElements offs (expandedElements offs es) = expandedElements offs es"
proof (rule expandedElements_cong)
  show "set (expandedElements offs (expandedElements offs es)) = set (expandedElements offs es)"
    unfolding set_expandedElements_sorted [OF assms]
    using inResidue_unique [OF assms] by blast
qed

lemma units_no_deadline:
  "checksLeft c = None \<Longrightarrow> \<exists>b'. getWholeResidues_units b us c = (Inr b', c)"
  by (induction us arbitrary: b) (simp_all add: andThen_def throwIfTimedOut_None Let_def)

lemma getWholeResidues_no_deadline:
  "checksLeft c = None \<Longrightarrow> \<exists>R. getWholeResidues source S c = (Inr R, c)"
  using units_no_deadline [of c "subsetBuilder source" S]
  by (auto simp: getWholeResidues_def andThen_def)

lemma wholeElements_idem:
  assumes "kind u = Atomic \<longrightarrow> sorted (residueOffsets u)"
  shows "wholeElements (u\<lparr>elements := wholeElements u\<rparr>) = wholeElements u"
  using assms by (simp add: wholeElements_def expandedElements_idem)

lemma overSource_map:
  assumes "overSource S source"
  shows "overSource (map (\<lambda>u. u\<lparr>elements := f u\<rparr>) S) source"
  unfolding overSource_def
proof
  fix v assume "v \<in> set (map (\<lambda>u. u\<lparr>elements := f u\<rparr>) S)"
  then obtain u where u: "u \<in> set S" and v: "v = u\<lparr>elements := f u\<rparr>" by auto
  from assms u obtain p where p: "unitById source (unit_id u) = Some p"
    and up: "u = p\<lparr>elements := elements u\<rparr>" unfolding overSource_def by blast
  have "v = p\<lparr>elements := elements v\<rparr>"
    unfolding v by (subst up) simp
  moreover have "unit_id v = unit_id u" by (simp add: v)
  ultimately show "\<exists>p. unitById source (unit_id v) = Some p \<and> v = p\<lparr>elements := elements v\<rparr>"
    using p by auto
qed

text \<open>
  C8. Residue expansion is idempotent. For a structure \<open>S\<close> over a source whose atomic
  units have ascending residue offsets: whenever the expansion of \<open>S\<close> returns
  \<open>S1\<close> and the expansion of \<open>S1\<close> returns \<open>S2\<close>, in any two contexts, then
  \<open>S2 = S1\<close>; and with no deadline both expansions return, the second giving back the
  result of the first.
\<close>

theorem whole_residues_idempotent:
  "(overSource S source \<and> (\<forall>u \<in> set S. kind u = Atomic \<longrightarrow> sorted (residueOffsets u)) \<and>
    getWholeResidues source S c = (Inr S1, c1) \<and> getWholeResidues source S1 c2 = (Inr S2, c3)
      \<longrightarrow> S2 = S1) \<and>
   (overSource S source \<and> (\<forall>u \<in> set S. kind u = Atomic \<longrightarrow> sorted (residueOffsets u)) \<and>
    checksLeft c = None
      \<longrightarrow> (\<exists>R. getWholeResidues source S c = (Inr R, c) \<and> getWholeResidues source R c = (Inr R, c)))"
proof -
  have main: "S2 = S1"
    if o: "overSource S source"
      and s: "\<forall>u \<in> set S. kind u = Atomic \<longrightarrow> sorted (residueOffsets u)"
      and g1: "getWholeResidues source S c = (Inr S1, c1)"
      and g2: "getWholeResidues source S1 c2 = (Inr S2, c3)"
    for S1 S2 c c1 c2 c3
  proof -
    have S1: "S1 = map (\<lambda>u. u\<lparr>elements := wholeElements u\<rparr>) S"
      using getWholeResidues_over [OF o g1] .
    have "overSource S1 source" unfolding S1 using o by (rule overSource_map)
    from getWholeResidues_over [OF this g2]
    have "S2 = map (\<lambda>u. u\<lparr>elements := wholeElements u\<rparr>) S1" .
    also have "\<dots> = map (\<lambda>u. (u\<lparr>elements := wholeElements u\<rparr>)\<lparr>elements :=
        wholeElements (u\<lparr>elements := wholeElements u\<rparr>)\<rparr>) S"
      unfolding S1 by (simp add: comp_def)
    also have "\<dots> = map (\<lambda>u. u\<lparr>elements := wholeElements u\<rparr>) S"
    proof (rule map_cong [OF refl])
      fix u assume "u \<in> set S"
      with s have "kind u = Atomic \<longrightarrow> sorted (residueOffsets u)" by blast
      from wholeElements_idem [OF this]
      show "(u\<lparr>elements := wholeElements u\<rparr>)\<lparr>elements :=
          wholeElements (u\<lparr>elements := wholeElements u\<rparr>)\<rparr> = u\<lparr>elements := wholeElements u\<rparr>"
        by simp
    qed
    finally show ?thesis using S1 by simp
  qed
  show ?thesis
  proof (intro conjI impI)
    assume "overSource S source \<and> (\<forall>u \<in> set S. kind u = Atomic \<longrightarrow> sorted (residueOffsets u)) \<and>
      getWholeResidues source S c = (Inr S1, c1) \<and> getWholeResidues source S1 c2 = (Inr S2, c3)"
    then show "S2 = S1" using main by blast
  next
    assume h: "overSource S source \<and> (\<forall>u \<in> set S. kind u = Atomic \<longrightarrow> sorted (residueOffsets u)) \<and>
      checksLeft c = None"
    then obtain R where R: "getWholeResidues source S c = (Inr R, c)"
      using getWholeResidues_no_deadline by blast
    from h obtain R' where R': "getWholeResidues source R c = (Inr R', c)"
      using getWholeResidues_no_deadline by blast
    from h have "overSource S source"
      and "\<forall>u \<in> set S. kind u = Atomic \<longrightarrow> sorted (residueOffsets u)" by simp_all
    from main [OF this R R'] have "R' = R" .
    with R R' show "\<exists>R. getWholeResidues source S c = (Inr R, c) \<and> getWholeResidues source R c = (Inr R, c)"
      by auto
  qed
qed

lemma expanded_3_7: "expandedElements [0, 5, 10] [3, 7] = [0, 1, 2, 3, 4, 5, 6, 7, 8, 9]"
  by code_simp

lemma scenario:
  "getWholeResidues source20 [unit0\<lparr>elements := [3, 7]\<rparr>] (initialContext source20 None)
     = (Inr [unit0], initialContext source20 None)"
proof -
  have o: "overSource [unit0\<lparr>elements := [3, 7]\<rparr>] source20"
    by (simp add: overSource_def unitById_def source20_def unit0_def)
  have "checksLeft (initialContext source20 None) = None" by (simp add: initialContext_def)
  then obtain R where R: "getWholeResidues source20 [unit0\<lparr>elements := [3, 7]\<rparr>]
      (initialContext source20 None) = (Inr R, initialContext source20 None)"
    using getWholeResidues_no_deadline by blast
  from getWholeResidues_over [OF o R] have "R = [unit0]"
    by (simp add: wholeElements_def unit0_def expanded_3_7)
  with R show ?thesis by simp
qed

lemma expandedElements_sorted_distinct:
  "sorted (expandedElements offs es) \<and> distinct (expandedElements offs es)"
  by (simp add: expandedElements_def)

text \<open>
  C7. For a structure \<open>S\<close> over a source whose atomic units have ascending residue
  offsets, the structure \<open>R\<close> that \<open>getWholeResidues\<close> returns has one unit for each
  unit of \<open>S\<close>, in order: a unit that is not atomic is copied unchanged; an atomic unit
  keeps everything but its elements, which are ascending without duplicates, and an
  element is among them exactly when its residue \<open>[offsets[r], offsets[r+1])\<close> holds an
  element of the input unit. In the scenario of two units of ten atoms with residues of
  five atoms, selecting atoms 3 and 7 of the first unit returns its atoms 0 to 9.
\<close>

theorem whole_residues_expansion:
  "(overSource S source \<and> (\<forall>u \<in> set S. kind u = Atomic \<longrightarrow> sorted (residueOffsets u)) \<and>
    getWholeResidues source S ctx = (Inr R, ctx') \<longrightarrow>
      length R = length S \<and>
      (\<forall>k < length S.
         (kind (S ! k) \<noteq> Atomic \<longrightarrow> R ! k = S ! k) \<and>
         (kind (S ! k) = Atomic \<longrightarrow>
            R ! k = (S ! k)\<lparr>elements := elements (R ! k)\<rparr> \<and>
            sorted (elements (R ! k)) \<and> distinct (elements (R ! k)) \<and>
            (\<forall>j. j \<in> set (elements (R ! k)) \<longleftrightarrow>
               (\<exists>r. inResidue (residueOffsets (S ! k)) r j \<and>
                    (\<exists>e \<in> set (elements (S ! k)). inResidue (residueOffsets (S ! k)) r e)))))) \<and>
   getWholeResidues source20 [unit0\<lparr>elements := [3, 7]\<rparr>] (initialContext source20 None)
     = (Inr [unit0], initialContext source20 None)"
proof (intro conjI impI)
  assume h: "overSource S source \<and> (\<forall>u \<in> set S. kind u = Atomic \<longrightarrow> sorted (residueOffsets u)) \<and>
    getWholeResidues source S ctx = (Inr R, ctx')"
  then have R: "R = map (\<lambda>u. u\<lparr>elements := wholeElements u\<rparr>) S"
    using getWholeResidues_over by blast
  then show "length R = length S" by simp
  show "\<forall>k < length S.
         (kind (S ! k) \<noteq> Atomic \<longrightarrow> R ! k = S ! k) \<and>
         (kind (S ! k) = Atomic \<longrightarrow>
            R ! k = (S ! k)\<lparr>elements := elements (R ! k)\<rparr> \<and>
            sorted (elements (R ! k)) \<and> distinct (elements (R ! k)) \<and>
            (\<forall>j. j \<in> set (elements (R ! k)) \<longleftrightarrow>
               (\<exists>r. inResidue (residueOffsets (S ! k)) r j \<and>
                    (\<exists>e \<in> set (elements (S ! k)). inResidue (residueOffsets (S ! k)) r e))))"
  proof (intro allI impI conjI)
    fix k assume k: "k < length S" and "kind (S ! k) \<noteq> Atomic"
    then show "R ! k = S ! k" by (simp add: R wholeElements_def)
  next
    fix k assume k: "k < length S" and a: "kind (S ! k) = Atomic"
    have e: "elements (R ! k) = expandedElements (residueOffsets (S ! k)) (elements (S ! k))"
      using k a by (simp add: R wholeElements_def)
    show "R ! k = (S ! k)\<lparr>elements := elements (R ! k)\<rparr>" using k by (simp add: R)
    show "sorted (elements (R ! k))" "distinct (elements (R ! k))"
      unfolding e by (simp_all add: expandedElements_sorted_distinct)
    from h k a have "sorted (residueOffsets (S ! k))" by simp
    from set_expandedElements_sorted [OF this]
    show "\<And>j. j \<in> set (elements (R ! k)) \<longleftrightarrow>
               (\<exists>r. inResidue (residueOffsets (S ! k)) r j \<and>
                    (\<exists>e \<in> set (elements (S ! k)). inResidue (residueOffsets (S ! k)) r e))"
      unfolding e by simp
  qed
next
  show "getWholeResidues source20 [unit0\<lparr>elements := [3, 7]\<rparr>] (initialContext source20 None)
     = (Inr [unit0], initialContext source20 None)"
    by (rule scenario)
qed

lemma mixed_run:
  "getWholeResidues sourceMixed [unit0\<lparr>elements := [3, 7]\<rparr>, unit2\<lparr>elements := [1]\<rparr>]
      (initialContext sourceMixed None)
     = (Inr [unit0, unit2\<lparr>elements := [1]\<rparr>], initialContext sourceMixed None)"
proof -
  have o: "overSource [unit0\<lparr>elements := [3, 7]\<rparr>, unit2\<lparr>elements := [1]\<rparr>] sourceMixed"
    by (simp add: overSource_def unitById_def sourceMixed_def unit0_def unit1_def unit2_def)
  have "checksLeft (initialContext sourceMixed None) = None" by (simp add: initialContext_def)
  then obtain R where R: "getWholeResidues sourceMixed
      [unit0\<lparr>elements := [3, 7]\<rparr>, unit2\<lparr>elements := [1]\<rparr>]
      (initialContext sourceMixed None) = (Inr R, initialContext sourceMixed None)"
    using getWholeResidues_no_deadline by blast
  from getWholeResidues_over [OF o R] have "R = [unit0, unit2\<lparr>elements := [1]\<rparr>]"
    by (simp add: wholeElements_def unit0_def unit2_def expanded_3_7)
  with R show ?thesis by simp
qed

theorem whole_residues_expansion_witness:
  "overSource [unit0\<lparr>elements := [3, 7]\<rparr>, unit2\<lparr>elements := [1]\<rparr>] sourceMixed \<and>
   sorted (residueOffsets unit0) \<and>
   getWholeResidues sourceMixed [unit0\<lparr>elements := [3, 7]\<rparr>, unit2\<lparr>elements := [1]\<rparr>]
      (initialContext sourceMixed None)
     = (Inr [unit0, unit2\<lparr>elements := [1]\<rparr>], initialContext sourceMixed None) \<and>
   [unit0, unit2\<lparr>elements := [1]\<rparr>] ! 1 = [unit0\<lparr>elements := [3, 7]\<rparr>, unit2\<lparr>elements := [1]\<rparr>] ! 1 \<and>
   (\<exists>r. inResidue [0, 5, 10] r 9 \<and> (\<exists>e \<in> set [3, 7]. inResidue [0, 5, 10] r e))"
proof -
  let ?S = "[unit0\<lparr>elements := [3, 7]\<rparr>, unit2\<lparr>elements := [1]\<rparr>]"
  let ?R = "[unit0, unit2\<lparr>elements := [1]\<rparr>]"
  have o: "overSource ?S sourceMixed"
    by (simp add: overSource_def unitById_def sourceMixed_def unit0_def unit1_def unit2_def)
  have s: "\<forall>u \<in> set ?S. kind u = Atomic \<longrightarrow> sorted (residueOffsets u)"
    by (simp add: unit0_def unit2_def)
  have s0: "sorted (residueOffsets unit0)" by (simp add: unit0_def)
  note g = mixed_run
  from whole_residues_expansion [THEN conjunct1, rule_format, OF conjI [OF o conjI [OF s g]]]
  have c: "\<forall>k < length ?S.
         (kind (?S ! k) \<noteq> Atomic \<longrightarrow> ?R ! k = ?S ! k) \<and>
         (kind (?S ! k) = Atomic \<longrightarrow>
            ?R ! k = (?S ! k)\<lparr>elements := elements (?R ! k)\<rparr> \<and>
            sorted (elements (?R ! k)) \<and> distinct (elements (?R ! k)) \<and>
            (\<forall>j. j \<in> set (elements (?R ! k)) \<longleftrightarrow>
               (\<exists>r. inResidue (residueOffsets (?S ! k)) r j \<and>
                    (\<exists>e \<in> set (elements (?S ! k)). inResidue (residueOffsets (?S ! k)) r e))))"
    by blast
  from c [rule_format, of 1] have c1: "?R ! 1 = ?S ! 1" by (simp add: unit2_def)
  from c [rule_format, of 0] have c0:
    "\<exists>r. inResidue [0, 5, 10] r 9 \<and> (\<exists>e \<in> set [3, 7]. inResidue [0, 5, 10] r e)"
    by (simp add: unit0_def) blast
  from o s0 g c1 c0 show ?thesis by blast
qed

theorem whole_residues_idempotent_witness:
  "overSource [unit0\<lparr>elements := [3, 7]\<rparr>, unit2\<lparr>elements := [1]\<rparr>] sourceMixed \<and>
   sorted (residueOffsets unit0) \<and>
   getWholeResidues sourceMixed [unit0\<lparr>elements := [3, 7]\<rparr>, unit2\<lparr>elements := [1]\<rparr>]
      (initialContext sourceMixed None)
     = (Inr [unit0, unit2\<lparr>elements := [1]\<rparr>], initialContext sourceMixed None) \<and>
   getWholeResidues sourceMixed [unit0, unit2\<lparr>elements := [1]\<rparr>]
      (initialContext sourceMixed None)
     = (Inr [unit0, unit2\<lparr>elements := [1]\<rparr>], initialContext sourceMixed None)"
proof -
  let ?S = "[unit0\<lparr>elements := [3, 7]\<rparr>, unit2\<lparr>elements := [1]\<rparr>]"
  let ?c = "initialContext sourceMixed None"
  have o: "overSource ?S sourceMixed"
    by (simp add: overSource_def unitById_def sourceMixed_def unit0_def unit1_def unit2_def)
  have s: "\<forall>u \<in> set ?S. kind u = Atomic \<longrightarrow> sorted (residueOffsets u)"
    by (simp add: unit0_def unit2_def)
  have s0: "sorted (residueOffsets unit0)" by (simp add: unit0_def)
  have n: "checksLeft ?c = None" by (simp add: initialContext_def)
  from whole_residues_idempotent [THEN conjunct2, rule_format, OF conjI [OF o conjI [OF s n]]]
  obtain R where "getWholeResidues sourceMixed ?S ?c = (Inr R, ?c)"
    and "getWholeResidues sourceMixed R ?c = (Inr R, ?c)" by blast
  with mixed_run have "getWholeResidues sourceMixed [unit0, unit2\<lparr>elements := [1]\<rparr>] ?c
     = (Inr [unit0, unit2\<lparr>elements := [1]\<rparr>], ?c)" by simp
  with o s0 mixed_run show ?thesis by blast
qed

section \<open>Atoms of the set operations\<close>

lemma hasAtom_atoms: "hasAtom s i e \<longleftrightarrow> (i, e) \<in> atoms s"
  by (auto simp: hasAtom_def atoms_def list_ex_iff)

lemma atoms_Nil: "atoms [] = {}"
  by (simp add: atoms_def)

lemma atoms_Cons: "atoms (u # s) = Pair (unit_id u) ` set (elements u) \<union> atoms s"
  by (simp add: atoms_def)

lemma atoms_append: "atoms (s @ t) = atoms s \<union> atoms t"
  by (auto simp: atoms_def)

lemma atoms_nonEmptyUnits: "atoms (nonEmptyUnits s) = atoms s"
  by (induction s) (auto simp: nonEmptyUnits_def atoms_Nil atoms_Cons)

lemma atoms_map_filter:
  "atoms (map (\<lambda>u. u\<lparr>elements := filter (P u) (elements u)\<rparr>) s)
     = {(i, e). \<exists>u \<in> set s. unit_id u = i \<and> e \<in> set (elements u) \<and> P u e}"
  by (auto simp: atoms_def)

lemma atoms_structureIntersect: "atoms (structureIntersect a b) = atoms a \<inter> atoms b"
  unfolding structureIntersect_def atoms_nonEmptyUnits atoms_map_filter
  by (auto simp: hasAtom_atoms atoms_def)

lemma atoms_structureSubtract: "atoms (structureSubtract a b) = atoms a - atoms b"
  unfolding structureSubtract_def atoms_nonEmptyUnits atoms_map_filter
  by (auto simp: hasAtom_atoms atoms_def)

lemma atoms_merge:
  "atoms (map (\<lambda>v. if unit_id v = i
                    then v\<lparr>elements := sort (remdups (elements v @ es))\<rparr> else v) acc)
     = atoms acc \<union> (if i \<in> unit_id ` set acc then Pair i ` set es else {})"
proof (induction acc)
  case Nil
  then show ?case by (simp add: atoms_Nil)
next
  case (Cons v acc)
  show ?case
  proof (cases "unit_id v = i")
    case True
    then have "atoms (map (\<lambda>v. if unit_id v = i
                    then v\<lparr>elements := sort (remdups (elements v @ es))\<rparr> else v) (v # acc))
        = Pair i ` (set (elements v) \<union> set es) \<union>
          (atoms acc \<union> (if i \<in> unit_id ` set acc then Pair i ` set es else {}))"
      by (simp add: atoms_Cons Cons.IH)
    also have "\<dots> = atoms (v # acc) \<union> Pair i ` set es"
      using True by (auto simp: atoms_Cons)
    finally show ?thesis using True by simp
  next
    case False
    then show ?thesis by (simp add: atoms_Cons Cons.IH Un_assoc)
  qed
qed

lemma atoms_addUnitTo: "atoms (addUnitTo u acc) = atoms acc \<union> atoms [u]"
proof (cases "unit_id u \<in> set (map unit_id acc)")
  case False
  then show ?thesis by (simp add: addUnitTo_def atoms_append)
next
  case True
  then show ?thesis by (simp add: addUnitTo_def atoms_merge atoms_Cons atoms_Nil)
qed

lemma atoms_structureUnion: "atoms (structureUnion a b) = atoms a \<union> atoms b"
  unfolding structureUnion_def
  by (induction b arbitrary: a) (auto simp: atoms_addUnitTo atoms_Cons atoms_Nil)

lemma atoms_fold_union:
  "atoms (fold (\<lambda>s acc. structureUnion acc s) ss a) = atoms a \<union> (\<Union>s \<in> set ss. atoms s)"
  by (induction ss arbitrary: a) (auto simp: atoms_structureUnion)

lemma atoms_unionStructure: "atoms (unionStructure sel) = selectionAtoms sel"
  by (simp add: unionStructure_def selectionAtoms_def atoms_fold_union atoms_Nil)

lemma elementCount_zero: "elementCount s = 0 \<longleftrightarrow> atoms s = {}"
  by (induction s) (auto simp: elementCount_def atoms_Nil atoms_Cons)

lemma atoms_content: "content s = content t \<Longrightarrow> atoms s = atoms t"
proof -
  have "\<And>s. atoms s = (\<Union>(i, es) \<in> set (content s). Pair i ` set es)"
    by (auto simp: atoms_def content_def)
  then show "content s = content t \<Longrightarrow> atoms s = atoms t" by metis
qed

lemma atoms_uniqueAdd:
  "(\<Union>t \<in> set (sb_structures (uniqueAdd b s)). atoms t)
     = (\<Union>t \<in> set (sb_structures b). atoms t) \<union> atoms s"
proof (cases "content s \<in> set (map content (sb_structures b))")
  case False
  then show ?thesis by (auto simp: uniqueAdd_def)
next
  case True
  then obtain t where "t \<in> set (sb_structures b)" "content t = content s" by auto
  then have "atoms s \<subseteq> (\<Union>t \<in> set (sb_structures b). atoms t)"
    using atoms_content by blast
  with True show ?thesis by (auto simp: uniqueAdd_def)
qed

lemma source_uniqueAdd: "sb_source (uniqueAdd b s) = sb_source b"
  by (simp add: uniqueAdd_def)

lemma selectionAtoms_getSelection:
  "selectionAtoms (getSelection b) = (\<Union>t \<in> set (sb_structures b). atoms t)"
  by (simp add: selectionAtoms_def getSelection_def)

section \<open>Loops whose step is a pure update followed by the guarded deadline check\<close>

lemma checkEvery_cases:
  "checkEvery n sI c = (r, c') \<Longrightarrow> onlyChecks c c' \<and> (r = Inr () \<or> r = Inl Timeout)"
  using throwIfTimedOut_cases [of c r c']
  by (auto simp: checkEvery_def onlyChecks_refl split: if_splits)

lemma checkEvery_None: "checksLeft c = None \<Longrightarrow> checkEvery n sI c = (Inr (), c)"
  by (simp add: checkEvery_def throwIfTimedOut_None)

lemma forEachFrom_pure:
  assumes fn: "\<And>s sI acc c. fn s sI acc c = andThen (checkEvery n sI) (\<lambda>_ c'. (Inr (g s acc), c')) c"
    and run: "forEachFrom sI ss fn acc c = (r, c')"
  shows "onlyChecks c c' \<and> (\<forall>e. r = Inl e \<longrightarrow> e = Timeout) \<and>
         (\<forall>ret. r = Inr ret \<longrightarrow> ret = fold g ss acc)"
  using run
proof (induction ss arbitrary: sI acc c)
  case Nil
  then show ?case by (auto simp: onlyChecks_refl)
next
  case (Cons s ss)
  obtain r1 c1 where t: "checkEvery n sI c = (r1, c1)" by (cases "checkEvery n sI c")
  note tc = checkEvery_cases [OF t]
  show ?case
  proof (cases r1)
    case (Inl e)
    then have "fn s sI acc c = (Inl e, c1)" using t by (simp only: fn) (simp add: andThen_def)
    with Cons.prems tc Inl show ?thesis by auto
  next
    case (Inr x)
    then have "fn s sI acc c = (Inr (g s acc), c1)" using t by (simp only: fn) (simp add: andThen_def)
    with Cons.prems have "forEachFrom (Suc sI) ss fn (g s acc) c1 = (r, c')" by simp
    from Cons.IH [OF this] tc show ?thesis
      using onlyChecks_trans by auto
  qed
qed

lemma forEachFrom_pure_None:
  assumes fn: "\<And>s sI acc c. fn s sI acc c = andThen (checkEvery n sI) (\<lambda>_ c'. (Inr (g s acc), c')) c"
    and n: "checksLeft c = None"
  shows "forEachFrom sI ss fn acc c = (Inr (fold g ss acc), c)"
proof (induction ss arbitrary: sI acc)
  case Nil
  then show ?case by simp
next
  case (Cons s ss)
  have "fn s sI acc c = (Inr (g s acc), c)"
    by (simp only: fn) (simp add: andThen_def checkEvery_None [OF n])
  then show ?case by (simp add: Cons.IH)
qed

lemma builderAtoms_uniqueAdd: "builderAtoms (uniqueAdd b s) = builderAtoms b \<union> atoms s"
  by (simp add: builderAtoms_def atoms_uniqueAdd)

lemma builderAtoms_UniqueBuilder: "builderAtoms (UniqueBuilder src) = {}"
  by (simp add: builderAtoms_def UniqueBuilder_def)

lemma selectionAtoms_builder: "selectionAtoms (getSelection b) = builderAtoms b"
  by (simp add: selectionAtoms_getSelection builderAtoms_def)

lemma selectionAtoms_count_zero: "structureCount sel = 0 \<Longrightarrow> selectionAtoms sel = {}"
  by (simp add: structureCount_def selectionAtoms_def)

lemma intersectBy_step_pure:
  "intersectBy_step U s sI ret c
     = andThen (checkEvery 50 sI)
         (\<lambda>_ c'. (Inr (if elementCount (structureIntersect U s) \<noteq> 0
                        then uniqueAdd ret (structureIntersect U s) else ret), c')) c"
  by (simp add: intersectBy_step_def Let_def)

lemma exceptBy_step_pure:
  "exceptBy_step U s sI ret c
     = andThen (checkEvery 50 sI)
         (\<lambda>_ c'. (Inr (if elementCount (structureSubtract s U) \<noteq> 0
                        then uniqueAdd ret (structureSubtract s U) else ret), c')) c"
  by (simp add: exceptBy_step_def Let_def)

lemma fold_intersect_atoms:
  "builderAtoms (fold (\<lambda>s ret. if elementCount (structureIntersect U s) \<noteq> 0
                        then uniqueAdd ret (structureIntersect U s) else ret) ss ret)
     = builderAtoms ret \<union> (\<Union>s \<in> set ss. atoms U \<inter> atoms s)"
proof (induction ss arbitrary: ret)
  case Nil
  then show ?case by simp
next
  case (Cons s ss)
  show ?case
  proof (cases "elementCount (structureIntersect U s) = 0")
    case True
    then have "atoms U \<inter> atoms s = {}"
      by (simp add: elementCount_zero atoms_structureIntersect)
    with True show ?thesis by (simp add: Cons.IH del: neq0_conv)
  next
    case False
    then show ?thesis
      by (simp add: Cons.IH builderAtoms_uniqueAdd atoms_structureIntersect Un_assoc del: neq0_conv)
  qed
qed

lemma fold_except_atoms:
  "builderAtoms (fold (\<lambda>s ret. if elementCount (structureSubtract s U) \<noteq> 0
                        then uniqueAdd ret (structureSubtract s U) else ret) ss ret)
     = builderAtoms ret \<union> (\<Union>s \<in> set ss. atoms s - atoms U)"
proof (induction ss arbitrary: ret)
  case Nil
  then show ?case by simp
next
  case (Cons s ss)
  show ?case
  proof (cases "elementCount (structureSubtract s U) = 0")
    case True
    then have "atoms s - atoms U = {}"
      by (simp add: elementCount_zero atoms_structureSubtract)
    with True show ?thesis by (auto simp: Cons.IH simp del: neq0_conv)
  next
    case False
    then show ?thesis
      by (simp add: Cons.IH builderAtoms_uniqueAdd atoms_structureSubtract Un_assoc del: neq0_conv)
  qed
qed

lemma intersectBy_atoms:
  assumes "intersectBy query byq ctx = (Inr rI, cI)"
    and "query ctx = (Inr selA, c1)" and "byq c1 = (Inr selB, c2)"
  shows "selectionAtoms rI = selectionAtoms selA \<inter> selectionAtoms selB"
proof (cases "structureCount selA = 0")
  case True
  with assms have "rI = selA" by (simp add: intersectBy_def andThen_def)
  with True show ?thesis by (simp add: selectionAtoms_count_zero)
next
  case A: False
  show ?thesis
  proof (cases "structureCount selB = 0")
    case True
    with A assms have "rI = Empty (inputStructure c2)" by (auto simp: intersectBy_def andThen_def)
    then have "selectionAtoms rI = {}" by (simp add: Empty_def selectionAtoms_def)
    moreover have "selectionAtoms selB = {}" using True by (rule selectionAtoms_count_zero)
    ultimately show ?thesis by simp
  next
    case False
    with A assms obtain ret where
      run: "forEachFrom 0 (structuresOf selA) (intersectBy_step (unionStructure selB))
              (UniqueBuilder (inputStructure c2)) c2 = (Inr ret, cI)"
      and rI: "rI = getSelection ret"
      by (auto simp: intersectBy_def andThen_def forEach_def split: prod.splits sum.splits)
    from forEachFrom_pure [OF intersectBy_step_pure run]
    have "builderAtoms ret = (\<Union>s \<in> set (structuresOf selA). atoms (unionStructure selB) \<inter> atoms s)"
      by (simp add: fold_intersect_atoms builderAtoms_UniqueBuilder del: neq0_conv)
    then show ?thesis
      unfolding rI selectionAtoms_builder atoms_unionStructure
      by (auto simp: selectionAtoms_def)
  qed
qed

lemma exceptBy_atoms:
  assumes "exceptBy query byq ctx = (Inr rE, cE)"
    and "query ctx = (Inr selA, c1)" and "byq c1 = (Inr selB, c2)"
  shows "selectionAtoms rE =
     (if structureCount selA \<noteq> 0 \<and> structureCount selB = 0 then {}
      else selectionAtoms selA - selectionAtoms selB)"
proof (cases "structureCount selA = 0")
  case True
  with assms have "rE = selA" by (simp add: exceptBy_def andThen_def)
  with True show ?thesis by (simp add: selectionAtoms_count_zero)
next
  case A: False
  show ?thesis
  proof (cases "structureCount selB = 0")
    case True
    with A assms have "rE = Empty (inputStructure c2)" by (auto simp: exceptBy_def andThen_def)
    with A True show ?thesis by (simp add: Empty_def selectionAtoms_def)
  next
    case False
    with A assms obtain ret where
      run: "forEachFrom 0 (structuresOf selA) (exceptBy_step (unionStructure selB))
              (UniqueBuilder (inputStructure c2)) c2 = (Inr ret, cE)"
      and rE: "rE = getSelection ret"
      by (auto simp: exceptBy_def andThen_def forEach_def split: prod.splits sum.splits)
    from forEachFrom_pure [OF exceptBy_step_pure run]
    have "builderAtoms ret = (\<Union>s \<in> set (structuresOf selA). atoms s - atoms (unionStructure selB))"
      by (simp add: fold_except_atoms builderAtoms_UniqueBuilder del: neq0_conv)
    then show ?thesis
      unfolding rE selectionAtoms_builder atoms_unionStructure
      using A False by (auto simp: selectionAtoms_def)
  qed
qed

lemma union_q_atoms:
  assumes "union_q query ctx = (Inr u, c)"
  shows "\<exists>sel. query ctx = (Inr sel, c) \<and> selectionAtoms u = selectionAtoms sel"
proof -
  from assms obtain sel where q: "query ctx = (Inr sel, c)"
    and u: "u = getSelection (linearAdd (LinearBuilder (inputStructure ctx)) (unionStructure sel))"
    by (auto simp: union_q_def andThen_def Let_def split: prod.splits sum.splits)
  have "selectionAtoms u = atoms (unionStructure sel)"
    by (simp add: u getSelection_def linearAdd_def LinearBuilder_def selectionAtoms_def)
  with q show ?thesis by (simp add: atoms_unionStructure)
qed

text \<open>
  C9. Whenever \<open>intersectBy\<close> returns, every atom of every structure of its result is an
  atom of a structure of the first query's result and of a structure of the \<open>by\<close>
  query's result; whenever \<open>exceptBy\<close> returns, no atom of a structure of its result
  is an atom of a structure of the \<open>by\<close> query's result.
\<close>

theorem intersect_within_except_disjoint:
  "(intersectBy query byq ctx = (Inr rI, cI) \<and> query ctx = (Inr selA, c1) \<and>
    byq c1 = (Inr selB, c2) \<longrightarrow>
      selectionAtoms rI \<subseteq> selectionAtoms selA \<and> selectionAtoms rI \<subseteq> selectionAtoms selB) \<and>
   (exceptBy query byq ctx = (Inr rE, cE) \<and> query ctx = (Inr selA, c1) \<and>
    byq c1 = (Inr selB, c2) \<longrightarrow>
      selectionAtoms rE \<inter> selectionAtoms selB = {})"
proof (intro conjI impI)
  assume h: "intersectBy query byq ctx = (Inr rI, cI) \<and> query ctx = (Inr selA, c1) \<and>
    byq c1 = (Inr selB, c2)"
  then have "selectionAtoms rI = selectionAtoms selA \<inter> selectionAtoms selB"
    using intersectBy_atoms by blast
  then show "selectionAtoms rI \<subseteq> selectionAtoms selA" "selectionAtoms rI \<subseteq> selectionAtoms selB"
    by simp_all
next
  assume h: "exceptBy query byq ctx = (Inr rE, cE) \<and> query ctx = (Inr selA, c1) \<and>
    byq c1 = (Inr selB, c2)"
  then have "selectionAtoms rE =
     (if structureCount selA \<noteq> 0 \<and> structureCount selB = 0 then {}
      else selectionAtoms selA - selectionAtoms selB)"
    using exceptBy_atoms by blast
  then show "selectionAtoms rE \<inter> selectionAtoms selB = {}"
    by (auto split: if_splits)
qed

lemma intersectBy_example:
  "intersectBy queryA queryB (initialContext source20 None)
     = (Inr (Sequence source20 [[unit0\<lparr>elements := [2, 3]\<rparr>]]), initialContext source20 None)"
  by (simp add: intersectBy_def queryA_def queryB_def constQuery_def andThen_def structureCount_def
    forEach_def intersectBy_step_def checkEvery_def throwIfTimedOut_def initialContext_def
    unionStructure_def structureUnion_def addUnitTo_def structureIntersect_def nonEmptyUnits_def
    hasAtom_def elementCount_def uniqueAdd_def UniqueBuilder_def getSelection_def content_def
    unit0_def unit1_def source20_def Let_def)

lemma exceptBy_example:
  "exceptBy queryA queryB (initialContext source20 None)
     = (Inr (Sequence source20 [[unit0\<lparr>elements := [1]\<rparr>], [unit1\<lparr>elements := [4]\<rparr>]]),
        initialContext source20 None)"
  by (simp add: exceptBy_def queryA_def queryB_def constQuery_def andThen_def structureCount_def
    forEach_def exceptBy_step_def checkEvery_def throwIfTimedOut_def initialContext_def
    unionStructure_def structureUnion_def addUnitTo_def structureSubtract_def nonEmptyUnits_def
    hasAtom_def elementCount_def uniqueAdd_def UniqueBuilder_def getSelection_def content_def
    unit0_def unit1_def source20_def Let_def)

theorem intersect_within_except_disjoint_witness:
  "intersectBy queryA queryB (initialContext source20 None)
     = (Inr (Sequence source20 [[unit0\<lparr>elements := [2, 3]\<rparr>]]), initialContext source20 None) \<and>
   exceptBy queryA queryB (initialContext source20 None)
     = (Inr (Sequence source20 [[unit0\<lparr>elements := [1]\<rparr>], [unit1\<lparr>elements := [4]\<rparr>]]),
        initialContext source20 None) \<and>
   selectionAtoms (Sequence source20 [[unit0\<lparr>elements := [2, 3]\<rparr>]])
     \<subseteq> selectionAtoms (Sequence source20 [[unit0\<lparr>elements := [1, 2, 3]\<rparr>], [unit1\<lparr>elements := [4]\<rparr>]]) \<and>
   selectionAtoms (Sequence source20 [[unit0\<lparr>elements := [2, 3]\<rparr>]])
     \<subseteq> selectionAtoms (Sequence source20 [[unit0\<lparr>elements := [2, 3, 4]\<rparr>]]) \<and>
   selectionAtoms (Sequence source20 [[unit0\<lparr>elements := [1]\<rparr>], [unit1\<lparr>elements := [4]\<rparr>]])
     \<inter> selectionAtoms (Sequence source20 [[unit0\<lparr>elements := [2, 3, 4]\<rparr>]]) = {}"
proof -
  let ?c = "initialContext source20 None"
  have a: "queryA ?c = (Inr (Sequence source20
     [[unit0\<lparr>elements := [1, 2, 3]\<rparr>], [unit1\<lparr>elements := [4]\<rparr>]]), ?c)"
    by (simp add: queryA_def constQuery_def)
  have b: "queryB ?c = (Inr (Sequence source20 [[unit0\<lparr>elements := [2, 3, 4]\<rparr>]]), ?c)"
    by (simp add: queryB_def constQuery_def)
  from intersect_within_except_disjoint [THEN conjunct1, rule_format,
      OF conjI [OF intersectBy_example conjI [OF a b]]]
    intersect_within_except_disjoint [THEN conjunct2, rule_format,
      OF conjI [OF exceptBy_example conjI [OF a b]]]
    intersectBy_example exceptBy_example
  show ?thesis by blast
qed

section \<open>The partition law\<close>

lemma inputStructure_initialContext: "inputStructure (initialContext s t) = s"
  by (simp add: initialContext_def)

lemma structuresOf_Empty: "structuresOf (Empty s) = []"
  by (simp add: Empty_def)

lemma union_q_queryA:
  "union_q queryA (initialContext source20 None)
     = (Inr (Sequence source20 [[unit0\<lparr>elements := [1, 2, 3]\<rparr>, unit1\<lparr>elements := [4]\<rparr>]]),
        initialContext source20 None)"
  by (simp add: union_q_def queryA_def constQuery_def andThen_def initialContext_def
    unionStructure_def structureUnion_def addUnitTo_def getSelection_def linearAdd_def
    LinearBuilder_def unit0_def unit1_def Let_def)

lemma union_q_exceptBy_example:
  "union_q (exceptBy queryA queryB) (initialContext source20 None)
     = (Inr (Sequence source20 [[unit0\<lparr>elements := [1]\<rparr>, unit1\<lparr>elements := [4]\<rparr>]]),
        initialContext source20 None)"
  by (simp add: union_q_def exceptBy_example andThen_def inputStructure_initialContext
    unionStructure_def structureUnion_def addUnitTo_def getSelection_def linearAdd_def
    LinearBuilder_def unit0_def unit1_def Let_def)

lemma union_q_intersectBy_example:
  "union_q (intersectBy queryA queryB) (initialContext source20 None)
     = (Inr (Sequence source20 [[unit0\<lparr>elements := [2, 3]\<rparr>]]), initialContext source20 None)"
  by (simp add: union_q_def intersectBy_example andThen_def inputStructure_initialContext
    unionStructure_def structureUnion_def addUnitTo_def getSelection_def linearAdd_def
    LinearBuilder_def unit0_def unit1_def Let_def)

text \<open>
  C4, as the claim states it, fails when the \<open>by\<close> query yields no structure: its
  element set is empty, so contained in any universe, and \<open>exceptBy\<close> returns the empty
  selection instead of the first query's structures. Here the first query yields atoms
  1, 2, 3 of unit 0 and atom 4 of unit 1, the unions of \<open>exceptBy\<close> and of
  \<open>intersectBy\<close> hold no atom, and the union of the first query holds four.
\<close>

theorem partition_law_counterexample:
  "selectionAtoms (Empty source20) \<subseteq> atoms source20 \<and>
   fst (union_q (exceptBy queryA (constQuery (Empty source20))) (initialContext source20 None))
     = Inr (Sequence source20 [[]]) \<and>
   fst (union_q (intersectBy queryA (constQuery (Empty source20))) (initialContext source20 None))
     = Inr (Sequence source20 [[]]) \<and>
   fst (union_q queryA (initialContext source20 None))
     = Inr (Sequence source20 [[unit0\<lparr>elements := [1, 2, 3]\<rparr>, unit1\<lparr>elements := [4]\<rparr>]]) \<and>
   selectionAtoms (Sequence source20 [[]]) \<union> selectionAtoms (Sequence source20 [[]])
     \<noteq> selectionAtoms (Sequence source20 [[unit0\<lparr>elements := [1, 2, 3]\<rparr>, unit1\<lparr>elements := [4]\<rparr>]])"
proof -
  have e: "exceptBy queryA (constQuery (Empty source20)) (initialContext source20 None)
      = (Inr (Empty source20), initialContext source20 None)"
    by (simp add: exceptBy_def queryA_def constQuery_def andThen_def structureCount_def Empty_def
        initialContext_def)
  have i: "intersectBy queryA (constQuery (Empty source20)) (initialContext source20 None)
      = (Inr (Empty source20), initialContext source20 None)"
    by (simp add: intersectBy_def queryA_def constQuery_def andThen_def structureCount_def Empty_def
        initialContext_def)
  have 1: "selectionAtoms (Empty source20) \<subseteq> atoms source20"
    by (simp add: selectionAtoms_def Empty_def)
  have 2: "fst (union_q (exceptBy queryA (constQuery (Empty source20))) (initialContext source20 None))
     = Inr (Sequence source20 [[]])"
    by (simp add: union_q_def e andThen_def inputStructure_initialContext structuresOf_Empty unionStructure_def
        getSelection_def linearAdd_def LinearBuilder_def Let_def)
  have 3: "fst (union_q (intersectBy queryA (constQuery (Empty source20))) (initialContext source20 None))
     = Inr (Sequence source20 [[]])"
    by (simp add: union_q_def i andThen_def inputStructure_initialContext structuresOf_Empty unionStructure_def
        getSelection_def linearAdd_def LinearBuilder_def Let_def)
  have 4: "fst (union_q queryA (initialContext source20 None))
     = Inr (Sequence source20 [[unit0\<lparr>elements := [1, 2, 3]\<rparr>, unit1\<lparr>elements := [4]\<rparr>]])"
    by (simp add: union_q_queryA)
  have 5: "selectionAtoms (Sequence source20 [[]]) \<union> selectionAtoms (Sequence source20 [[]])
     \<noteq> selectionAtoms (Sequence source20 [[unit0\<lparr>elements := [1, 2, 3]\<rparr>, unit1\<lparr>elements := [4]\<rparr>]])"
    by (simp add: selectionAtoms_def atoms_def)
  from 1 2 3 4 5 show ?thesis by blast
qed

text \<open>
  C4, amended. Whenever the \<open>by\<close> query yields at least one structure, or the first
  query yields none, and the three unions return: the atoms of the union of
  \<open>exceptBy\<close> together with the atoms of the union of \<open>intersectBy\<close> are the atoms
  of the union of the first query.
\<close>

theorem partition_law:
  "union_q (exceptBy query byq) ctx = (Inr uE, cE) \<and>
   union_q (intersectBy query byq) ctx = (Inr uI, cI) \<and>
   union_q query ctx = (Inr uA, c1) \<and> query ctx = (Inr selA, c1) \<and> byq c1 = (Inr selB, c2) \<and>
   (structureCount selB \<noteq> 0 \<or> structureCount selA = 0) \<longrightarrow>
     selectionAtoms uE \<union> selectionAtoms uI = selectionAtoms uA"
proof
  assume h: "union_q (exceptBy query byq) ctx = (Inr uE, cE) \<and>
   union_q (intersectBy query byq) ctx = (Inr uI, cI) \<and>
   union_q query ctx = (Inr uA, c1) \<and> query ctx = (Inr selA, c1) \<and> byq c1 = (Inr selB, c2) \<and>
   (structureCount selB \<noteq> 0 \<or> structureCount selA = 0)"
  from h union_q_atoms [of "exceptBy query byq" ctx uE cE] obtain rE where
    rE: "exceptBy query byq ctx = (Inr rE, cE)" and uE: "selectionAtoms uE = selectionAtoms rE"
    by blast
  from h union_q_atoms [of "intersectBy query byq" ctx uI cI] obtain rI where
    rI: "intersectBy query byq ctx = (Inr rI, cI)" and uI: "selectionAtoms uI = selectionAtoms rI"
    by blast
  from h union_q_atoms [of query ctx uA c1] have uA: "selectionAtoms uA = selectionAtoms selA"
    by auto
  from h have a: "query ctx = (Inr selA, c1)" and b: "byq c1 = (Inr selB, c2)" by simp_all
  have "selectionAtoms rE = selectionAtoms selA - selectionAtoms selB"
    using exceptBy_atoms [OF rE a b] h by (auto simp: selectionAtoms_count_zero)
  moreover have "selectionAtoms rI = selectionAtoms selA \<inter> selectionAtoms selB"
    using intersectBy_atoms [OF rI a b] .
  ultimately show "selectionAtoms uE \<union> selectionAtoms uI = selectionAtoms uA"
    unfolding uE uI uA by blast
qed

theorem partition_law_witness:
  "union_q (exceptBy queryA queryB) (initialContext source20 None)
     = (Inr (Sequence source20 [[unit0\<lparr>elements := [1]\<rparr>, unit1\<lparr>elements := [4]\<rparr>]]),
        initialContext source20 None) \<and>
   union_q (intersectBy queryA queryB) (initialContext source20 None)
     = (Inr (Sequence source20 [[unit0\<lparr>elements := [2, 3]\<rparr>]]), initialContext source20 None) \<and>
   union_q queryA (initialContext source20 None)
     = (Inr (Sequence source20 [[unit0\<lparr>elements := [1, 2, 3]\<rparr>, unit1\<lparr>elements := [4]\<rparr>]]),
        initialContext source20 None) \<and>
   structureCount (Sequence source20 [[unit0\<lparr>elements := [2, 3, 4]\<rparr>]]) \<noteq> 0 \<and>
   selectionAtoms (Sequence source20 [[unit0\<lparr>elements := [1]\<rparr>, unit1\<lparr>elements := [4]\<rparr>]]) \<union>
   selectionAtoms (Sequence source20 [[unit0\<lparr>elements := [2, 3]\<rparr>]])
     = selectionAtoms (Sequence source20 [[unit0\<lparr>elements := [1, 2, 3]\<rparr>, unit1\<lparr>elements := [4]\<rparr>]])"
proof -
  let ?c = "initialContext source20 None"
  have a: "queryA ?c = (Inr (Sequence source20
     [[unit0\<lparr>elements := [1, 2, 3]\<rparr>], [unit1\<lparr>elements := [4]\<rparr>]]), ?c)"
    by (simp add: queryA_def constQuery_def)
  have b: "queryB ?c = (Inr (Sequence source20 [[unit0\<lparr>elements := [2, 3, 4]\<rparr>]]), ?c)"
    by (simp add: queryB_def constQuery_def)
  have n: "structureCount (Sequence source20 [[unit0\<lparr>elements := [2, 3, 4]\<rparr>]]) \<noteq> 0"
    by (simp add: structureCount_def)
  from partition_law [rule_format, OF conjI [OF union_q_exceptBy_example
      conjI [OF union_q_intersectBy_example conjI [OF union_q_queryA conjI [OF a conjI [OF b disjI1 [OF n]]]]]]]
    union_q_exceptBy_example union_q_intersectBy_example union_q_queryA n
  show ?thesis by blast
qed

section \<open>Surroundings: what the builder holds\<close>

lemma committedAtoms_addToUnit:
  "committedAtoms (addToUnit b i e) = insert (i, e) (committedAtoms b) \<and>
   parent (addToUnit b i e) = parent b"
proof (cases "i \<in> set (map fst (committed b))")
  case False
  then show ?thesis by (auto simp: addToUnit_def committedAtoms_def)
next
  case True
  then obtain es0 where es0: "(i, es0) \<in> set (committed b)" by auto
  let ?m = "map (\<lambda>(j, es). if j = i then (j, sort (remdups (es @ [e]))) else (j, es)) (committed b)"
  have "(\<exists>es. (j, es) \<in> set ?m \<and> x \<in> set es) \<longleftrightarrow> (j = i \<and> x = e) \<or> (j, x) \<in> committedAtoms b"
    for j x
  proof
    assume "\<exists>es. (j, es) \<in> set ?m \<and> x \<in> set es"
    then obtain es where "(j, es) \<in> set ?m" and x: "x \<in> set es" by blast
    then obtain es' where "(j, es') \<in> set (committed b)"
      and "es = (if j = i then sort (remdups (es' @ [e])) else es')"
      by (auto split: if_splits)
    with x show "(j = i \<and> x = e) \<or> (j, x) \<in> committedAtoms b"
      by (auto simp: committedAtoms_def split: if_splits)
  next
    assume "(j = i \<and> x = e) \<or> (j, x) \<in> committedAtoms b"
    then consider "j = i" "x = e" | "(j, x) \<in> committedAtoms b" by auto
    then show "\<exists>es. (j, es) \<in> set ?m \<and> x \<in> set es"
    proof cases
      case 1
      from es0 have "(i, sort (remdups (es0 @ [e]))) \<in> set ?m" by force
      with 1 show ?thesis by (intro exI [of _ "sort (remdups (es0 @ [e]))"]) simp
    next
      case 2
      then obtain es' where es': "(j, es') \<in> set (committed b)" "x \<in> set es'"
        by (auto simp: committedAtoms_def)
      then have "(j, if j = i then sort (remdups (es' @ [e])) else es') \<in> set ?m" by force
      with es' show ?thesis
        by (intro exI [of _ "if j = i then sort (remdups (es' @ [e])) else es'"]) simp
    qed
  qed
  then have "{(j, x). \<exists>es. (j, es) \<in> set ?m \<and> x \<in> set es} = insert (i, e) (committedAtoms b)"
    by auto
  with True show ?thesis by (simp add: addToUnit_def committedAtoms_def)
qed

lemma committedAtoms_fold_addToUnit:
  "committedAtoms (fold (\<lambda>(i, e) b. addToUnit b i e) hits b) = committedAtoms b \<union> set hits \<and>
   parent (fold (\<lambda>(i, e) b. addToUnit b i e) hits b) = parent b"
proof (induction hits arbitrary: b)
  case Nil
  then show ?case by simp
next
  case (Cons h hits)
  obtain i e where h: "h = (i, e)" by (cases h)
  from Cons.IH [of "addToUnit b i e"] committedAtoms_addToUnit [of b i e]
  show ?case by (auto simp: h)
qed

lemma committedAtoms_findUnit:
  "committedAtoms (findUnit lookup r u b)
     = committedAtoms b \<union>
       (\<Union>e \<in> set (elements u). case conformation u e of (px, py, pz) \<Rightarrow> set (lookup px py pz r)) \<and>
   parent (findUnit lookup r u b) = parent b"
proof -
  have "\<And>b. committedAtoms (fold (\<lambda>e b. case conformation u e of (px, py, pz) \<Rightarrow>
            findIntoBuilder lookup px py pz r b) es b)
        = committedAtoms b \<union>
          (\<Union>e \<in> set es. case conformation u e of (px, py, pz) \<Rightarrow> set (lookup px py pz r)) \<and>
        parent (fold (\<lambda>e b. case conformation u e of (px, py, pz) \<Rightarrow>
            findIntoBuilder lookup px py pz r b) es b) = parent b" for es
  proof (induction es)
    case Nil
    then show ?case by simp
  next
    case (Cons e es)
    obtain px py pz where p: "conformation u e = (px, py, pz)" by (cases "conformation u e")
    from Cons [of "findIntoBuilder lookup px py pz r b"]
      committedAtoms_fold_addToUnit [of "lookup px py pz r" b]
    show ?case by (auto simp: p findIntoBuilder_def)
  qed
  then show ?thesis by (simp add: findUnit_def)
qed

lemma surroundings_units_committed:
  "getIncludeSurroundings_units lookup r b us c = (Inr b', c') \<Longrightarrow>
   committedAtoms b' = committedAtoms b \<union>
     (\<Union>u \<in> set us. \<Union>e \<in> set (elements u).
        case conformation u e of (px, py, pz) \<Rightarrow> set (lookup px py pz r)) \<and>
   parent b' = parent b"
proof (induction us arbitrary: b c)
  case Nil
  then show ?case by simp
next
  case (Cons u us)
  from Cons.prems obtain c1 where
    "getIncludeSurroundings_units lookup r (findUnit lookup r u b) us c1 = (Inr b', c')"
    by (auto simp: andThen_def split: prod.splits sum.splits)
  from Cons.IH [OF this] committedAtoms_findUnit [of lookup r u b]
  show ?case by auto
qed

lemma surroundings_units_context:
  "getIncludeSurroundings_units lookup r b us c = (res, c') \<Longrightarrow>
   onlyChecks c c' \<and> (\<forall>e. res = Inl e \<longrightarrow> e = Timeout)"
proof (induction us arbitrary: b c)
  case Nil
  then show ?case by (auto simp: onlyChecks_refl)
next
  case (Cons u us)
  obtain r1 c1 where t: "throwIfTimedOut c = (r1, c1)" by (cases "throwIfTimedOut c")
  note tc = throwIfTimedOut_cases [OF t]
  show ?case
  proof (cases r1)
    case (Inl e)
    with Cons.prems t tc show ?thesis by (auto simp: andThen_def)
  next
    case (Inr x)
    with Cons.prems t have
      "getIncludeSurroundings_units lookup r (findUnit lookup r u b) us c1 = (res, c')"
      by (auto simp: andThen_def)
    from Cons.IH [OF this] tc show ?thesis using onlyChecks_trans by blast
  qed
qed

lemma surroundings_units_no_deadline:
  "checksLeft c = None \<Longrightarrow>
   getIncludeSurroundings_units lookup r b us c = (Inr (fold (findUnit lookup r) us b), c)"
  by (induction us arbitrary: b) (simp_all add: andThen_def throwIfTimedOut_None)

lemma getStructure_units:
  "v \<in> set (getStructure b) \<longleftrightarrow>
   (\<exists>i es p. (i, es) \<in> set (committed b) \<and> unitById (parent b) i = Some p \<and>
      v = p\<lparr>elements := es\<rparr>)"
  by (force simp: getStructure_def List.map_filter_def)

lemma atoms_getStructure:
  "atoms (getStructure b) = {(i, e). (i, e) \<in> committedAtoms b \<and> unitById (parent b) i \<noteq> None}"
proof -
  have "(i, e) \<in> atoms (getStructure b) \<longleftrightarrow>
        (i, e) \<in> committedAtoms b \<and> unitById (parent b) i \<noteq> None" for i e
  proof
    assume "(i, e) \<in> atoms (getStructure b)"
    then obtain v where v: "v \<in> set (getStructure b)" "unit_id v = i" "e \<in> set (elements v)"
      by (auto simp: atoms_def)
    then obtain j es p where "(j, es) \<in> set (committed b)" "unitById (parent b) j = Some p"
      "v = p\<lparr>elements := es\<rparr>" unfolding getStructure_units by blast
    with v unitById_Some [of "parent b" j p]
    show "(i, e) \<in> committedAtoms b \<and> unitById (parent b) i \<noteq> None"
      by (auto simp: committedAtoms_def)
  next
    assume "(i, e) \<in> committedAtoms b \<and> unitById (parent b) i \<noteq> None"
    then obtain es p where es: "(i, es) \<in> set (committed b)" "e \<in> set es"
      and p: "unitById (parent b) i = Some p"
      by (auto simp: committedAtoms_def)
    then have "p\<lparr>elements := es\<rparr> \<in> set (getStructure b)"
      unfolding getStructure_units by blast
    moreover have "unit_id (p\<lparr>elements := es\<rparr>) = i" using p unitById_Some by fastforce
    moreover have "e \<in> set (elements (p\<lparr>elements := es\<rparr>))" using es by simp
    ultimately show "(i, e) \<in> atoms (getStructure b)"
      unfolding atoms_def by blast
  qed
  then show ?thesis by auto
qed

lemma overSource_getStructure: "overSource (getStructure b) (parent b)"
  unfolding overSource_def
proof
  fix v assume "v \<in> set (getStructure b)"
  then obtain i es p where "unitById (parent b) i = Some p" "v = p\<lparr>elements := es\<rparr>"
    unfolding getStructure_units by blast
  moreover from this have "unit_id v = i" using unitById_Some [of "parent b" i p] by simp
  ultimately show "\<exists>p. unitById (parent b) (unit_id v) = Some p \<and> v = p\<lparr>elements := elements v\<rparr>"
    by auto
qed

section \<open>Surroundings contain the input\<close>

lemma wholeElements_keeps:
  assumes "e \<in> set (elements v)"
    and "kind v = Atomic \<longrightarrow> (\<exists>r. inResidue (residueOffsets v) r e)"
  shows "e \<in> set (wholeElements v)"
proof (cases "kind v = Atomic")
  case False
  with assms show ?thesis by (simp add: wholeElements_def)
next
  case True
  with assms obtain r where "inResidue (residueOffsets v) r e" by blast
  then obtain r' where r': "segmentIndex (residueOffsets v) e = Some r'"
    using segmentIndex_defined by blast
  then have "inResidue (residueOffsets v) r' e" by (rule segmentIndex_Some)
  with r' assms(1) have "e \<in> set (expandedElements (residueOffsets v) (elements v))"
    unfolding set_expandedElements by blast
  with True show ?thesis by (simp add: wholeElements_def)
qed

lemma atomsI: "v \<in> set s \<Longrightarrow> e \<in> set (elements v) \<Longrightarrow> (unit_id v, e) \<in> atoms s"
  unfolding atoms_def by blast

lemma atoms_subsetI:
  "(\<And>u e. u \<in> set S \<Longrightarrow> e \<in> set (elements u) \<Longrightarrow> (unit_id u, e) \<in> A) \<Longrightarrow> atoms S \<subseteq> A"
  unfolding atoms_def by blast

lemma surroundings_superset:
  assumes o: "overSource S source"
    and hits: "\<forall>u \<in> set S. \<forall>e \<in> set (elements u). case conformation u e of
                 (px, py, pz) \<Rightarrow> (unit_id u, e) \<in> set (lookup3d source px py pz (radius params))"
    and cov: "wholeResidues_flag params = Some True \<longrightarrow>
                (\<forall>u \<in> set S. kind u = Atomic \<longrightarrow>
                   (\<forall>e \<in> set (elements u). \<exists>r. inResidue (residueOffsets u) r e))"
    and run: "getIncludeSurroundings lookup3d source S params ctx = (Inr R, ctx')"
  shows "atoms S \<subseteq> atoms R"
proof -
  from run obtain b c1 where
    loop: "getIncludeSurroundings_units (lookup3d source) (radius params)
             (StructureUniqueSubsetBuilder source) S ctx = (Inr b, c1)"
    and fin: "(if wholeResidues_flag params = Some True
               then getWholeResidues source (getStructure b) c1
               else (Inr (getStructure b), c1)) = (Inr R, ctx')"
    by (auto simp: getIncludeSurroundings_def andThen_def split: prod.splits sum.splits)
  from surroundings_units_committed [OF loop]
  have cb: "committedAtoms b = (\<Union>u \<in> set S. \<Union>e \<in> set (elements u).
        case conformation u e of (px, py, pz) \<Rightarrow> set (lookup3d source px py pz (radius params)))"
    and pb: "parent b = source"
    by (simp_all add: StructureUniqueSubsetBuilder_def committedAtoms_def)
  have inB: "(unit_id u, e) \<in> atoms (getStructure b)" if "u \<in> set S" "e \<in> set (elements u)" for u e
  proof -
    obtain px py pz where xyz: "conformation u e = (px, py, pz)" by (cases "conformation u e")
    note hits [THEN bspec, OF that(1), THEN bspec, OF that(2)]
    with xyz have "(unit_id u, e) \<in> (case conformation u e of
        (px, py, pz) \<Rightarrow> set (lookup3d source px py pz (radius params)))"
      by simp
    then have "(unit_id u, e) \<in> committedAtoms b"
      unfolding cb by (intro UN_I [OF that(1)] UN_I [OF that(2)])
    moreover from o that obtain p where "unitById source (unit_id u) = Some p"
      unfolding overSource_def by blast
    ultimately show ?thesis by (simp add: atoms_getStructure pb)
  qed
  show ?thesis
  proof (cases "wholeResidues_flag params = Some True")
    case False
    with fin have "R = getStructure b" by simp
    with inB show ?thesis by (intro atoms_subsetI) simp
  next
    case True
    with fin have w: "getWholeResidues source (getStructure b) c1 = (Inr R, ctx')" by simp
    have "overSource (getStructure b) source" using overSource_getStructure [of b] pb by simp
    from getWholeResidues_over [OF this w]
    have R: "R = map (\<lambda>v. v\<lparr>elements := wholeElements v\<rparr>) (getStructure b)" .
    have "(unit_id u, e) \<in> atoms R" if u: "u \<in> set S" and e: "e \<in> set (elements u)" for u e
    proof -
      from inB [OF u e] obtain v where v: "v \<in> set (getStructure b)" "unit_id v = unit_id u"
        "e \<in> set (elements v)" by (auto simp: atoms_def)
      then obtain j es p' where p': "unitById source j = Some p'" "v = p'\<lparr>elements := es\<rparr>"
        unfolding getStructure_units pb by blast
      from o u obtain p where p: "unitById source (unit_id u) = Some p"
        "u = p\<lparr>elements := elements u\<rparr>" unfolding overSource_def by blast
      from p'(1) unitById_Some [of source j p'] v(2) p'(2) have "j = unit_id u" by simp
      with p(1) p'(1) have "p' = p" by simp
      have "kind u = kind p" "residueOffsets u = residueOffsets p"
        by (subst p(2), simp)+
      moreover have "kind v = kind p" "residueOffsets v = residueOffsets p"
        by (simp_all add: p'(2) \<open>p' = p\<close>)
      ultimately have kv: "kind v = kind u" "residueOffsets v = residueOffsets u"
        by simp_all
      from cov True u e have "kind u = Atomic \<longrightarrow> (\<exists>r. inResidue (residueOffsets u) r e)"
        by blast
      with kv have "kind v = Atomic \<longrightarrow> (\<exists>r. inResidue (residueOffsets v) r e)" by simp
      from wholeElements_keeps [OF v(3) this]
      have 1: "e \<in> set (elements (v\<lparr>elements := wholeElements v\<rparr>))" by simp
      have 2: "v\<lparr>elements := wholeElements v\<rparr> \<in> set R" using v(1) by (simp add: R)
      from atomsI [OF 2 1] v(2) show ?thesis by simp
    qed
    then show ?thesis by (intro atoms_subsetI)
  qed
qed

lemma withinRadius_self:
  assumes o: "overSource S source"
    and sub: "\<forall>u \<in> set S. \<forall>p. unitById source (unit_id u) = Some p \<longrightarrow>
                set (elements u) \<subseteq> set (elements p)"
    and r: "0 \<le> r" and u: "u \<in> set S" and e: "e \<in> set (elements u)"
  shows "case conformation u e of (px, py, pz) \<Rightarrow> (unit_id u, e) \<in> set (withinRadius source px py pz r)"
proof -
  from o u obtain p where p: "unitById source (unit_id u) = Some p"
    "u = p\<lparr>elements := elements u\<rparr>" unfolding overSource_def by blast
  from sub u p e have ep: "e \<in> set (elements p)" by blast
  from p(1) have ps: "p \<in> set source" "unit_id p = unit_id u" using unitById_Some by blast+
  have c: "conformation u = conformation p" by (subst p(2)) simp
  obtain px py pz where xyz: "conformation p e = (px, py, pz)" by (cases "conformation p e")
  have "(unit_id p, e) \<in> set (withinRadius source px py pz r)"
    unfolding withinRadius_def using ps(1) ep r xyz by (force simp: image_iff)
  with ps(2) c xyz show ?thesis by simp
qed

lemma hits_3: "withinRadius source20 3 0 0 0 = [(0, 3)]"
  by (simp add: withinRadius_def source20_def unit0_def unit1_def)

lemma hits_3_neg: "withinRadius source20 3 0 0 (- 1) = []"
  by (simp add: withinRadius_def source20_def unit0_def unit1_def)

lemma surroundings_example:
  "getIncludeSurroundings withinRadius source20 [unit0\<lparr>elements := [3]\<rparr>]
      \<lparr>radius = 0, wholeResidues_flag = None\<rparr> (initialContext source20 None)
     = (Inr [unit0\<lparr>elements := [3]\<rparr>], initialContext source20 None)"
proof -
  let ?c = "initialContext source20 None"
  have "checksLeft ?c = None" by (simp add: initialContext_def)
  from surroundings_units_no_deadline [OF this]
  have loop: "getIncludeSurroundings_units (withinRadius source20) 0
      (StructureUniqueSubsetBuilder source20) [unit0\<lparr>elements := [3]\<rparr>] ?c
    = (Inr (fold (findUnit (withinRadius source20) 0) [unit0\<lparr>elements := [3]\<rparr>]
         (StructureUniqueSubsetBuilder source20)), ?c)" .
  have b: "findUnit (withinRadius source20) 0 (unit0\<lparr>elements := [3]\<rparr>)
         (StructureUniqueSubsetBuilder source20)
      = \<lparr>parent = source20, committed = [(0, [3])], currentUnit = None\<rparr>"
    by (simp add: findUnit_def findIntoBuilder_def unit0_def hits_3 StructureUniqueSubsetBuilder_def
        addToUnit_def)
  have g: "getStructure \<lparr>parent = source20, committed = [(0, [3])], currentUnit = None\<rparr>
      = [unit0\<lparr>elements := [3]\<rparr>]"
    by (simp add: getStructure_def List.map_filter_simps unitById_def source20_def unit0_def)
  show ?thesis
    by (simp add: getIncludeSurroundings_def andThen_def loop b g
        del: getIncludeSurroundings_units.simps)
qed

text \<open>
  C6. For a structure \<open>S\<close> over the source, a spatial index that reports the atom of
  each query point itself at the given radius, and, when whole residues are asked for,
  elements of atomic units that lie in residues of the offset table: every atom of
  \<open>S\<close> is an atom of the structure that \<open>getIncludeSurroundings\<close> returns. For the
  index that enumerates the elements within the radius of the query point, this holds
  at every radius \<open>r \<ge> 0\<close> when the elements of \<open>S\<close> are elements of the source;
  the surroundings of one atom at radius 0 contain that atom.
\<close>

theorem surroundings_contain_input:
  "(overSource S source \<and>
    (\<forall>u \<in> set S. \<forall>e \<in> set (elements u). case conformation u e of
       (px, py, pz) \<Rightarrow> (unit_id u, e) \<in> set (lookup3d source px py pz (radius params))) \<and>
    (wholeResidues_flag params = Some True \<longrightarrow>
       (\<forall>u \<in> set S. kind u = Atomic \<longrightarrow>
          (\<forall>e \<in> set (elements u). \<exists>r. inResidue (residueOffsets u) r e))) \<and>
    getIncludeSurroundings lookup3d source S params ctx = (Inr R, ctx')
      \<longrightarrow> atoms S \<subseteq> atoms R) \<and>
   (overSource S source \<and>
    (\<forall>u \<in> set S. \<forall>p. unitById source (unit_id u) = Some p \<longrightarrow>
       set (elements u) \<subseteq> set (elements p)) \<and>
    0 \<le> radius params \<and>
    (wholeResidues_flag params = Some True \<longrightarrow>
       (\<forall>u \<in> set S. kind u = Atomic \<longrightarrow>
          (\<forall>e \<in> set (elements u). \<exists>r. inResidue (residueOffsets u) r e))) \<and>
    getIncludeSurroundings withinRadius source S params ctx = (Inr R, ctx')
      \<longrightarrow> atoms S \<subseteq> atoms R)"
proof (intro conjI impI)
  assume "overSource S source \<and>
    (\<forall>u \<in> set S. \<forall>e \<in> set (elements u). case conformation u e of
       (px, py, pz) \<Rightarrow> (unit_id u, e) \<in> set (lookup3d source px py pz (radius params))) \<and>
    (wholeResidues_flag params = Some True \<longrightarrow>
       (\<forall>u \<in> set S. kind u = Atomic \<longrightarrow>
          (\<forall>e \<in> set (elements u). \<exists>r. inResidue (residueOffsets u) r e))) \<and>
    getIncludeSurroundings lookup3d source S params ctx = (Inr R, ctx')"
  then show "atoms S \<subseteq> atoms R"
    using surroundings_superset [of S source lookup3d params ctx R ctx'] by blast
next
  assume h: "overSource S source \<and>
    (\<forall>u \<in> set S. \<forall>p. unitById source (unit_id u) = Some p \<longrightarrow>
       set (elements u) \<subseteq> set (elements p)) \<and>
    0 \<le> radius params \<and>
    (wholeResidues_flag params = Some True \<longrightarrow>
       (\<forall>u \<in> set S. kind u = Atomic \<longrightarrow>
          (\<forall>e \<in> set (elements u). \<exists>r. inResidue (residueOffsets u) r e))) \<and>
    getIncludeSurroundings withinRadius source S params ctx = (Inr R, ctx')"
  then have o: "overSource S source"
    and sub: "\<forall>u \<in> set S. \<forall>p. unitById source (unit_id u) = Some p \<longrightarrow>
       set (elements u) \<subseteq> set (elements p)"
    and r: "0 \<le> radius params" by simp_all
  have "\<forall>u \<in> set S. \<forall>e \<in> set (elements u). case conformation u e of
       (px, py, pz) \<Rightarrow> (unit_id u, e) \<in> set (withinRadius source px py pz (radius params))"
    by (intro ballI) (rule withinRadius_self [OF o sub r])
  with h show "atoms S \<subseteq> atoms R"
    using surroundings_superset [of S source withinRadius params ctx R ctx'] by blast
qed

theorem surroundings_contain_input_witness:
  "overSource [unit0\<lparr>elements := [3]\<rparr>] source20 \<and>
   getIncludeSurroundings withinRadius source20 [unit0\<lparr>elements := [3]\<rparr>]
      \<lparr>radius = 0, wholeResidues_flag = None\<rparr> (initialContext source20 None)
     = (Inr [unit0\<lparr>elements := [3]\<rparr>], initialContext source20 None) \<and>
   (0, 3) \<in> set (withinRadius source20 3 0 0 0) \<and>
   atoms [unit0\<lparr>elements := [3]\<rparr>] \<subseteq> atoms [unit0\<lparr>elements := [3]\<rparr>] \<and>
   (0, 3) \<in> atoms [unit0\<lparr>elements := [3]\<rparr>]"
proof -
  let ?S = "[unit0\<lparr>elements := [3]\<rparr>]"
  let ?p = "\<lparr>radius = 0, wholeResidues_flag = None\<rparr>"
  have o: "overSource ?S source20"
    by (simp add: overSource_def unitById_def source20_def unit0_def)
  have sub: "\<forall>u \<in> set ?S. \<forall>p. unitById source20 (unit_id u) = Some p \<longrightarrow>
       set (elements u) \<subseteq> set (elements p)"
    by (simp add: unitById_def source20_def unit0_def)
  have hits: "\<forall>u \<in> set ?S. \<forall>e \<in> set (elements u). case conformation u e of
       (px, py, pz) \<Rightarrow> (unit_id u, e) \<in> set (withinRadius source20 px py pz (radius ?p))"
    by (simp add: unit0_def hits_3)
  have r: "0 \<le> radius ?p" by simp
  have cov: "wholeResidues_flag ?p = Some True \<longrightarrow>
       (\<forall>u \<in> set ?S. kind u = Atomic \<longrightarrow>
          (\<forall>e \<in> set (elements u). \<exists>r. inResidue (residueOffsets u) r e))" by simp
  note g = surroundings_example
  from surroundings_contain_input [THEN conjunct1, rule_format,
      OF conjI [OF o conjI [OF hits conjI [OF cov g]]]]
  have 1: "atoms ?S \<subseteq> atoms ?S" .
  from surroundings_contain_input [THEN conjunct2, rule_format,
      OF conjI [OF o conjI [OF sub conjI [OF r conjI [OF cov g]]]]]
  have 2: "atoms ?S \<subseteq> atoms ?S" .
  have 3: "(0, 3) \<in> set (withinRadius source20 3 0 0 0)" by (simp add: hits_3)
  have 4: "(0, 3) \<in> atoms ?S" by (simp add: atoms_def unit0_def)
  from o g 1 3 4 show ?thesis by blast
qed

section \<open>Errors of the surroundings query\<close>

lemma getWholeResidues_context:
  "getWholeResidues source S c = (res, c') \<Longrightarrow>
   onlyChecks c c' \<and> (\<forall>e. res = Inl e \<longrightarrow> e = Timeout)"
proof -
  assume run: "getWholeResidues source S c = (res, c')"
  obtain r1 c1 where l: "getWholeResidues_units (subsetBuilder source) S c = (r1, c1)"
    by (cases "getWholeResidues_units (subsetBuilder source) S c")
  note lc = units_context [OF l]
  from run l have "c' = c1" "(\<forall>e. res = Inl e \<longrightarrow> r1 = Inl e)"
    by (auto simp: getWholeResidues_def andThen_def split: sum.splits)
  with lc show ?thesis by blast
qed

lemma getIncludeSurroundings_context:
  "getIncludeSurroundings lookup3d source S params c = (res, c') \<Longrightarrow>
   onlyChecks c c' \<and> (\<forall>e. res = Inl e \<longrightarrow> e = Timeout)"
proof -
  assume run: "getIncludeSurroundings lookup3d source S params c = (res, c')"
  obtain r1 c1 where l: "getIncludeSurroundings_units (lookup3d source) (radius params)
      (StructureUniqueSubsetBuilder source) S c = (r1, c1)"
    by (cases "getIncludeSurroundings_units (lookup3d source) (radius params)
      (StructureUniqueSubsetBuilder source) S c")
  note lc = surroundings_units_context [OF l]
  show ?thesis
  proof (cases r1)
    case (Inl e)
    with run l lc show ?thesis by (auto simp: getIncludeSurroundings_def andThen_def)
  next
    case (Inr b)
    show ?thesis
    proof (cases "wholeResidues_flag params = Some True")
      case True
      with run l Inr have "getWholeResidues source (getStructure b) c1 = (res, c')"
        by (simp add: getIncludeSurroundings_def andThen_def)
      from getWholeResidues_context [OF this] lc show ?thesis
        using onlyChecks_trans by blast
    next
      case False
      with run l Inr lc show ?thesis
        by (auto simp: getIncludeSurroundings_def andThen_def)
    qed
  qed
qed

lemma getIncludeSurroundings_no_deadline:
  assumes "checksLeft c = None"
  shows "\<exists>R. getIncludeSurroundings lookup3d source S params c = (Inr R, c)"
    and "wholeResidues_flag params \<noteq> Some True \<Longrightarrow>
         getIncludeSurroundings lookup3d source S params c
           = (Inr (getStructure (fold (findUnit (lookup3d source) (radius params)) S
                (StructureUniqueSubsetBuilder source))), c)"
  using surroundings_units_no_deadline [OF assms] getWholeResidues_no_deadline [OF assms]
  by (simp_all add: getIncludeSurroundings_def andThen_def)

lemma forEachFrom_context:
  assumes fn: "\<forall>s sI acc c res c'. fn s sI acc c = (res, c') \<longrightarrow>
      onlyChecks c c' \<and> (\<forall>e. res = Inl e \<longrightarrow> e = Timeout)"
  shows "forEachFrom sI ss fn acc c = (res, c') \<Longrightarrow>
      onlyChecks c c' \<and> (\<forall>e. res = Inl e \<longrightarrow> e = Timeout)"
proof (induction ss arbitrary: sI acc c)
  case Nil
  then show ?case by (auto simp: onlyChecks_refl)
next
  case (Cons s ss)
  obtain r1 c1 where t: "fn s sI acc c = (r1, c1)" by (cases "fn s sI acc c")
  from fn t have tc: "onlyChecks c c1 \<and> (\<forall>e. r1 = Inl e \<longrightarrow> e = Timeout)" by blast
  show ?case
  proof (cases r1)
    case (Inl e)
    with Cons.prems t tc show ?thesis by auto
  next
    case (Inr a)
    with Cons.prems t have "forEachFrom (Suc sI) ss fn a c1 = (res, c')" by simp
    from Cons.IH [OF this] tc show ?thesis using onlyChecks_trans by blast
  qed
qed

lemma forEachFrom_no_deadline:
  assumes fn: "\<forall>s sI acc. \<exists>a. fn s sI acc c = (Inr a, c)"
  shows "\<exists>a. forEachFrom sI ss fn acc c = (Inr a, c)"
proof (induction ss arbitrary: sI acc)
  case Nil
  then show ?case by simp
next
  case (Cons s ss)
  from fn obtain a where "fn s sI acc c = (Inr a, c)" by blast
  with Cons.IH [of "Suc sI" a] show ?case by simp
qed

lemma includeSurroundings_add_context:
  "includeSurroundings_add lookup3d params s sI acc c = (res, c') \<Longrightarrow>
   onlyChecks c c' \<and> (\<forall>e. res = Inl e \<longrightarrow> e = Timeout)"
proof -
  assume run: "includeSurroundings_add lookup3d params s sI acc c = (res, c')"
  obtain r1 c1 where g: "getIncludeSurroundings lookup3d (inputStructure c) s params c = (r1, c1)"
    by (cases "getIncludeSurroundings lookup3d (inputStructure c) s params c")
  from run g have "c' = c1" "\<forall>e. res = Inl e \<longrightarrow> r1 = Inl e"
    by (auto simp: includeSurroundings_add_def andThen_def split: sum.splits)
  with getIncludeSurroundings_context [OF g] show ?thesis by blast
qed

lemma includeSurroundings_add_no_deadline:
  "checksLeft c = None \<Longrightarrow> \<exists>a. includeSurroundings_add lookup3d params s sI acc c = (Inr a, c)"
  using getIncludeSurroundings_no_deadline(1) [of c lookup3d "inputStructure c" s params]
  by (auto simp: includeSurroundings_add_def andThen_def)

text \<open>
  C3, as the claim states it, fails: with radius \<open>-1\<close> the query is not rejected. It
  runs the spatial lookup with that radius and returns, here, a selection whose
  structure is empty.
\<close>

theorem negative_radius_counterexample:
  "radius \<lparr>radius = - 1, wholeResidues_flag = None\<rparr> < 0 \<and>
   includeSurroundings withinRadius (constQuery (Singletons source20 [unit0\<lparr>elements := [3]\<rparr>]))
      \<lparr>radius = - 1, wholeResidues_flag = None\<rparr> (initialContext source20 None)
     = (Inr (Singletons source20 []), initialContext source20 None)"
proof -
  let ?c = "initialContext source20 None"
  let ?p = "\<lparr>radius = - 1, wholeResidues_flag = None\<rparr>"
  have n: "checksLeft ?c = None" by (simp add: initialContext_def)
  have f: "wholeResidues_flag ?p \<noteq> Some True" by simp
  have b: "findUnit (withinRadius source20) (- 1) (unit0\<lparr>elements := [3]\<rparr>)
         (StructureUniqueSubsetBuilder source20)
      = \<lparr>parent = source20, committed = [], currentUnit = None\<rparr>"
    by (simp add: findUnit_def findIntoBuilder_def unit0_def hits_3_neg StructureUniqueSubsetBuilder_def)
  have g: "getIncludeSurroundings withinRadius source20 [unit0\<lparr>elements := [3]\<rparr>] ?p ?c
      = (Inr [], ?c)"
    using getIncludeSurroundings_no_deadline(2) [OF n f, of withinRadius source20 "[unit0\<lparr>elements := [3]\<rparr>]"]
    by (simp add: b getStructure_def List.map_filter_simps)
  show ?thesis
    by (simp add: includeSurroundings_def constQuery_def andThen_def inputStructure_initialContext g)
qed

text \<open>
  C3, amended. \<open>includeSurroundings\<close> does not validate the radius. For every radius,
  negative ones included: an error it returns is the deadline's timeout or the error of
  the inner query; when the inner query returns and no deadline is set, it returns a
  selection; and for a singleton, without whole residues, that selection holds the
  structure built from what the spatial index reports, queried with the radius as given
  at every element.
\<close>

theorem no_radius_validation:
  "(includeSurroundings lookup3d query params ctx = (Inl err, c') \<longrightarrow>
      err = Timeout \<or> (\<exists>c. query ctx = (Inl err, c))) \<and>
   (query ctx = (Inr inner, c1) \<and> checksLeft c1 = None \<longrightarrow>
      (\<exists>sel. includeSurroundings lookup3d query params ctx = (Inr sel, c1))) \<and>
   (query ctx = (Inr (Singletons src s), c1) \<and> checksLeft c1 = None \<and>
    wholeResidues_flag params \<noteq> Some True \<longrightarrow>
      includeSurroundings lookup3d query params ctx
        = (Inr (Singletons (inputStructure c1)
             (getStructure (fold (findUnit (lookup3d (inputStructure c1)) (radius params)) s
                (StructureUniqueSubsetBuilder (inputStructure c1))))), c1))"
proof (intro conjI impI)
  assume run: "includeSurroundings lookup3d query params ctx = (Inl err, c')"
  obtain r1 c1 where q: "query ctx = (r1, c1)" by (cases "query ctx")
  show "err = Timeout \<or> (\<exists>c. query ctx = (Inl err, c))"
  proof (cases r1)
    case (Inl e)
    with run q show ?thesis by (auto simp: includeSurroundings_def andThen_def)
  next
    case (Inr inner)
    show ?thesis
    proof (cases inner)
      case (Singletons src s)
      obtain r2 c2 where g: "getIncludeSurroundings lookup3d (inputStructure c1) s params c1 = (r2, c2)"
        by (cases "getIncludeSurroundings lookup3d (inputStructure c1) s params c1")
      from run q Inr Singletons g have "r2 = Inl err"
        by (auto simp: includeSurroundings_def andThen_def split: sum.splits)
      with getIncludeSurroundings_context [OF g] show ?thesis by blast
    next
      case (Sequence src ss)
      obtain r2 c2 where g: "forEachFrom 0 ss (includeSurroundings_add lookup3d params)
                (UniqueBuilder (inputStructure c1)) c1 = (r2, c2)"
        by (cases "forEachFrom 0 ss (includeSurroundings_add lookup3d params)
                (UniqueBuilder (inputStructure c1)) c1")
      from run q Inr Sequence g have "r2 = Inl err"
        by (auto simp: includeSurroundings_def andThen_def split: sum.splits)
      moreover have "\<forall>s sI acc c res c'.
          includeSurroundings_add lookup3d params s sI acc c = (res, c') \<longrightarrow>
          onlyChecks c c' \<and> (\<forall>e. res = Inl e \<longrightarrow> e = Timeout)"
        using includeSurroundings_add_context by blast
      from forEachFrom_context [of "includeSurroundings_add lookup3d params", OF this g]
      have "\<forall>e. r2 = Inl e \<longrightarrow> e = Timeout" by blast
      ultimately show ?thesis by blast
    qed
  qed
next
  assume h: "query ctx = (Inr inner, c1) \<and> checksLeft c1 = None"
  then have n: "checksLeft c1 = None" by simp
  show "\<exists>sel. includeSurroundings lookup3d query params ctx = (Inr sel, c1)"
  proof (cases inner)
    case (Singletons src s)
    from getIncludeSurroundings_no_deadline(1) [OF n, of lookup3d "inputStructure c1" s params]
    obtain R where "getIncludeSurroundings lookup3d (inputStructure c1) s params c1 = (Inr R, c1)"
      by blast
    with h Singletons show ?thesis by (simp add: includeSurroundings_def andThen_def)
  next
    case (Sequence src ss)
    have "\<forall>s sI acc. \<exists>a. includeSurroundings_add lookup3d params s sI acc c1 = (Inr a, c1)"
      using includeSurroundings_add_no_deadline [OF n] by blast
    from forEachFrom_no_deadline [of "includeSurroundings_add lookup3d params" c1, OF this]
    obtain a where "forEachFrom 0 ss (includeSurroundings_add lookup3d params)
                (UniqueBuilder (inputStructure c1)) c1 = (Inr a, c1)" by blast
    with h Sequence show ?thesis by (simp add: includeSurroundings_def andThen_def)
  qed
next
  assume h: "query ctx = (Inr (Singletons src s), c1) \<and> checksLeft c1 = None \<and>
    wholeResidues_flag params \<noteq> Some True"
  then have n: "checksLeft c1 = None" and f: "wholeResidues_flag params \<noteq> Some True" by simp_all
  from getIncludeSurroundings_no_deadline(2) [OF n f, of lookup3d "inputStructure c1" s] h
  show "includeSurroundings lookup3d query params ctx
        = (Inr (Singletons (inputStructure c1)
             (getStructure (fold (findUnit (lookup3d (inputStructure c1)) (radius params)) s
                (StructureUniqueSubsetBuilder (inputStructure c1))))), c1)"
    by (simp add: includeSurroundings_def andThen_def)
qed

theorem no_radius_validation_witness:
  "includeSurroundings withinRadius (constQuery (Singletons source20 [unit0\<lparr>elements := [3]\<rparr>]))
      \<lparr>radius = - 1, wholeResidues_flag = None\<rparr> (initialContext source20 (Some 0))
     = (Inl Timeout, initialContext source20 (Some 0)) \<and>
   checksLeft (initialContext source20 None) = None \<and>
   includeSurroundings withinRadius (constQuery (Singletons source20 [unit0\<lparr>elements := [3]\<rparr>]))
      \<lparr>radius = - 1, wholeResidues_flag = None\<rparr> (initialContext source20 None)
     = (Inr (Singletons source20
          (getStructure (fold (findUnit (withinRadius source20) (- 1)) [unit0\<lparr>elements := [3]\<rparr>]
             (StructureUniqueSubsetBuilder source20)))), initialContext source20 None) \<and>
   (\<exists>sel. includeSurroundings withinRadius
       (constQuery (Singletons source20 [unit0\<lparr>elements := [3]\<rparr>]))
       \<lparr>radius = - 1, wholeResidues_flag = None\<rparr> (initialContext source20 None)
      = (Inr sel, initialContext source20 None))"
proof -
  let ?q = "constQuery (Singletons source20 [unit0\<lparr>elements := [3]\<rparr>])"
  let ?p = "\<lparr>radius = - 1, wholeResidues_flag = None\<rparr>"
  let ?c = "initialContext source20 None"
  let ?t = "initialContext source20 (Some 0)"
  have q: "?q ?c = (Inr (Singletons source20 [unit0\<lparr>elements := [3]\<rparr>]), ?c)"
    by (simp add: constQuery_def)
  have n: "checksLeft ?c = None" by (simp add: initialContext_def)
  have f: "wholeResidues_flag ?p \<noteq> Some True" by simp
  have t: "includeSurroundings withinRadius ?q ?p ?t = (Inl Timeout, ?t)"
    by (simp add: includeSurroundings_def constQuery_def andThen_def getIncludeSurroundings_def
        throwIfTimedOut_def initialContext_def)
  note v = no_radius_validation [where lookup3d = withinRadius and query = ?q and params = ?p
      and ctx = ?c and ?c1.0 = ?c and inner = "Singletons source20 [unit0\<lparr>elements := [3]\<rparr>]"
      and src = source20 and s = "[unit0\<lparr>elements := [3]\<rparr>]"]
  from no_radius_validation [where lookup3d = withinRadius and query = ?q and params = ?p
      and ctx = ?t and c' = ?t and err = Timeout, THEN conjunct1, rule_format, OF t]
  have 1: "Timeout = Timeout \<or> (\<exists>c. ?q ?t = (Inl Timeout, c))" .
  from v [THEN conjunct2, THEN conjunct1, rule_format, OF conjI [OF q n]]
  have 2: "\<exists>sel. includeSurroundings withinRadius ?q ?p ?c = (Inr sel, ?c)" .
  from v [THEN conjunct2, THEN conjunct2, rule_format, OF conjI [OF q conjI [OF n f]]]
  have 3: "includeSurroundings withinRadius ?q ?p ?c
     = (Inr (Singletons source20
          (getStructure (fold (findUnit (withinRadius source20) (- 1)) [unit0\<lparr>elements := [3]\<rparr>]
             (StructureUniqueSubsetBuilder source20)))), ?c)"
    by (simp add: inputStructure_initialContext)
  from t n 2 3 show ?thesis by blast
qed

section \<open>Property expansion at concrete inputs\<close>

lemmas ep_defs = expandProperty_def constQuery_def andThen_def forEach_def expandProperty_claim_def
     claimStructure_def claimUnit_def setCursorElement_def setCursorUnit_def claim_def
     UniqueArray_add_def arrayAssign_def checkEvery_def throwIfTimedOut_def pushCurrentElement_def
     popCurrentElement_def initialContext_def residueOf_def subsetBuilder_def
     addAtIndex_def StructureElement_create_def Let_def addToUnit_def getStructure_def
     List.map_filter_simps unitById_def uniqueAdd_def UniqueBuilder_def getSelection_def content_def

lemma expandProperty_type_error:
  "fst (expandProperty (constQuery (Sequence source20 [[unit0\<lparr>elements := [7]\<rparr>]])) residueOf
     (initialContext source20 None))
   = Inl TypeError"
  by (simp add: ep_defs source20_def unit0_def unit1_def)

lemma expandProperty_timeout:
  "expandProperty (constQuery (Sequence source20 [[unit0\<lparr>elements := [7]\<rparr>]])) residueOf
     (initialContext source20 (Some 0))
   = (Inl Timeout, (initialContext source20 (Some 0))
       \<lparr>element := \<lparr>el_unit = Some (unit0\<lparr>elements := [7]\<rparr>), el_element = Some 7\<rparr>,
         currentElementStack := [StructureElement_create]\<rparr>)"
  by (simp add: ep_defs unit0_def)

lemma querySelection_inner_timeout:
  "querySelection (constQuery (Sequence source20 [[unit0\<lparr>elements := [3]\<rparr>]]))
     (wholeResidues (constQuery (Singletons source20 [unit0\<lparr>elements := [3]\<rparr>])))
     (initialContext source20 (Some 0))
   = (Inl Timeout, (initialContext source20 (Some 0))
       \<lparr>inputStructure := [unit0\<lparr>elements := [3]\<rparr>], inputStructureStack := [source20]\<rparr>)"
  by (simp add: querySelection_def querySelection_step_def constQuery_def andThen_def forEach_def
      structureCount_def wholeResidues_def getWholeResidues_def pushInputStructure_def
      throwIfTimedOut_def initialContext_def unit0_def Let_def)

lemma wholeResidues_pushed_example:
  "wholeResidues (constQuery (Singletons source20 [unit0\<lparr>elements := [3]\<rparr>]))
     (pushInputStructure [unit0\<lparr>elements := [3]\<rparr>] (initialContext source20 (Some 1)))
   = (Inr (Singletons [unit0\<lparr>elements := [3]\<rparr>] [unit0\<lparr>elements := [0, 1, 2, 3, 4]\<rparr>]),
      (initialContext source20 (Some 0))
        \<lparr>inputStructure := [unit0\<lparr>elements := [3]\<rparr>], inputStructureStack := [source20]\<rparr>)"
  by (simp add: constQuery_def andThen_def wholeResidues_def getWholeResidues_def
      pushInputStructure_def throwIfTimedOut_def initialContext_def unit0_def Let_def
      subsetBuilder_def beginUnit_def addElement_def commitUnit_def getStructure_def
      List.map_filter_simps unitById_def segmentIndex_def transientSegments_def residueRange_def
      addResidues_def upt_conv_Cons)

lemma wholeResidues_pushed_timeout:
  "wholeResidues (constQuery (Singletons source20 [unit0\<lparr>elements := [3]\<rparr>]))
     (pushInputStructure [unit0\<lparr>elements := [3]\<rparr>] (initialContext source20 (Some 0)))
   = (Inl Timeout,
      (initialContext source20 (Some 0))
        \<lparr>inputStructure := [unit0\<lparr>elements := [3]\<rparr>], inputStructureStack := [source20]\<rparr>)"
  by (simp add: constQuery_def andThen_def wholeResidues_def getWholeResidues_def
      pushInputStructure_def throwIfTimedOut_def initialContext_def unit0_def Let_def)

lemma querySelection_own_check_example:
  "querySelection (constQuery (Sequence source20 [[unit0\<lparr>elements := [3]\<rparr>]]))
     (wholeResidues (constQuery (Singletons source20 [unit0\<lparr>elements := [3]\<rparr>])))
     (initialContext source20 (Some 1))
   = (Inl Timeout, initialContext source20 (Some 0))"
  by (simp add: querySelection_def querySelection_step_def constQuery_def andThen_def forEach_def
      structureCount_def wholeResidues_def getWholeResidues_def pushInputStructure_def
      popInputStructure_def checkEvery_def
      throwIfTimedOut_def initialContext_def unit0_def Let_def)

section \<open>Scopes of the context\<close>

lemma sameScope_refl: "sameScope c c"
  by (simp add: sameScope_def)

lemma sameScope_trans: "sameScope a b \<Longrightarrow> sameScope b c \<Longrightarrow> sameScope a c"
  by (simp add: sameScope_def)

lemma sameStacks_refl: "sameStacks c c"
  by (simp add: sameStacks_def)

lemma sameStacks_trans: "sameStacks a b \<Longrightarrow> sameStacks b c \<Longrightarrow> sameStacks a c"
  by (simp add: sameStacks_def)

lemma sameScope_sameStacks: "sameScope c c' \<Longrightarrow> sameStacks c c'"
  by (simp add: sameScope_def sameStacks_def)

lemma checkEvery_sameScope: "checkEvery n sI c = (res, c') \<Longrightarrow> sameScope c c'"
  using checkEvery_cases onlyChecks_sameScope by blast

text \<open>A loop keeps what each of its steps keeps, on normal return and on every return.\<close>

lemma forEachFrom_keeps_ok:
  assumes refl: "\<forall>c. R c c" and trans: "\<forall>a b c. R a b \<and> R b c \<longrightarrow> R a c"
    and fn: "\<forall>s sI acc c a c'. fn s sI acc c = (Inr a, c') \<longrightarrow> R c c'"
  shows "forEachFrom sI ss fn acc c = (Inr r, c') \<Longrightarrow> R c c'"
proof (induction ss arbitrary: sI acc c)
  case Nil
  then show ?case using refl by simp
next
  case (Cons s ss)
  obtain r1 c1 where t: "fn s sI acc c = (r1, c1)" by (cases "fn s sI acc c")
  show ?case
  proof (cases r1)
    case (Inl e)
    with Cons.prems t show ?thesis by simp
  next
    case (Inr a)
    with Cons.prems t have "forEachFrom (Suc sI) ss fn a c1 = (Inr r, c')" by simp
    from Cons.IH [OF this] have "R c1 c'" .
    moreover from fn t Inr have "R c c1" by blast
    ultimately show ?thesis using trans by blast
  qed
qed

lemma forEachFrom_keeps:
  assumes refl: "\<forall>c. R c c" and trans: "\<forall>a b c. R a b \<and> R b c \<longrightarrow> R a c"
    and fn: "\<forall>s sI acc c res c'. fn s sI acc c = (res, c') \<longrightarrow>
               R c c' \<and> (\<forall>e. res = Inl e \<longrightarrow> P e)"
  shows "forEachFrom sI ss fn acc c = (res, c') \<Longrightarrow> R c c' \<and> (\<forall>e. res = Inl e \<longrightarrow> P e)"
proof (induction ss arbitrary: sI acc c)
  case Nil
  then show ?case using refl by auto
next
  case (Cons s ss)
  obtain r1 c1 where t: "fn s sI acc c = (r1, c1)" by (cases "fn s sI acc c")
  from fn t have tc: "R c c1 \<and> (\<forall>e. r1 = Inl e \<longrightarrow> P e)" by blast
  show ?case
  proof (cases r1)
    case (Inl e)
    with Cons.prems t tc show ?thesis by auto
  next
    case (Inr a)
    with Cons.prems t have "forEachFrom (Suc sI) ss fn a c1 = (res, c')" by simp
    from Cons.IH [OF this] tc show ?thesis using trans by blast
  qed
qed

lemma pop_after_push:
  assumes "sameScope (pushInputStructure s c) c2"
  shows "\<exists>c3. popInputStructure c2 = (Inr (), c3) \<and> sameScope c c3"
  using assms by (simp add: sameScope_def pushInputStructure_def popInputStructure_def)

lemma querySelection_step_ok:
  assumes q: "\<forall>c r c'. query c = (Inr r, c') \<longrightarrow> sameScope c c'"
    and run: "querySelection_step query s sI ret c = (Inr ret', c')"
  shows "sameScope c c'"
proof -
  from run obtain inner c2 where q2: "query (pushInputStructure s c) = (Inr inner, c2)"
    by (auto simp: querySelection_step_def andThen_def split: prod.splits sum.splits)
  with q have "sameScope (pushInputStructure s c) c2" by blast
  then obtain c3 where p: "popInputStructure c2 = (Inr (), c3)" and s3: "sameScope c c3"
    using pop_after_push by blast
  from run q2 p obtain r4 where "checkEvery 10 sI c3 = (r4, c')"
    by (auto simp: querySelection_step_def andThen_def Let_def split: prod.splits sum.splits)
  from checkEvery_sameScope [OF this] s3 show ?thesis using sameScope_trans by blast
qed

lemma onlyCursor_refl: "onlyCursor c c"
  by (simp add: onlyCursor_def)

lemma onlyCursor_trans: "onlyCursor a b \<Longrightarrow> onlyCursor b c \<Longrightarrow> onlyCursor a c"
  unfolding onlyCursor_def
  by (metis (no_types, lifting) QueryContext.surjective QueryContext.update_convs(3))

lemma onlyCursor_sameStacks: "onlyCursor c c' \<Longrightarrow> sameStacks c c'"
  unfolding onlyCursor_def sameStacks_def
  by (metis (no_types, lifting) QueryContext.select_convs(1,2,4) QueryContext.surjective
      QueryContext.update_convs(3))

lemma onlyCursor_checksLeft: "onlyCursor c c' \<Longrightarrow> checksLeft c' = checksLeft c"
  unfolding onlyCursor_def
  by (metis (no_types, lifting) QueryContext.select_convs(5) QueryContext.surjective
      QueryContext.update_convs(3))

lemma onlyCursor_set: "onlyCursor c (setCursorUnit u c)" "onlyCursor c (setCursorElement e c)"
  by (simp_all add: onlyCursor_def setCursorUnit_def setCursorElement_def)

lemma claimElements_cursor:
  "onlyCursor c (snd (fold (\<lambda>e (m, c). let c' = setCursorElement e c
          in (claim m (property c') sI, c')) es (m, c)))"
proof (induction es arbitrary: m c)
  case Nil
  then show ?case by (simp add: onlyCursor_refl)
next
  case (Cons e es)
  have "onlyCursor (setCursorElement e c)
     (snd (fold (\<lambda>e (m, c). let c' = setCursorElement e c in (claim m (property c') sI, c')) es
        (claim m (property (setCursorElement e c)) sI, setCursorElement e c)))"
    by (rule Cons.IH)
  with onlyCursor_set(2) [of c e] show ?case
    by (auto simp: Let_def intro: onlyCursor_trans)
qed

lemma claimUnit_cursor: "onlyCursor (snd st) (snd (claimUnit property sI u st))"
proof -
  have "onlyCursor (setCursorUnit u (snd st)) (snd (claimUnit property sI u st))"
    unfolding claimUnit_def by (rule claimElements_cursor)
  with onlyCursor_set(1) [of "snd st" u] show ?thesis using onlyCursor_trans by blast
qed

lemma claimStructure_cursor: "onlyCursor (snd st) (snd (claimStructure property sI s st))"
  unfolding claimStructure_def
proof (induction s arbitrary: st)
  case Nil
  then show ?case by (simp add: onlyCursor_refl)
next
  case (Cons u s)
  have "onlyCursor (snd (claimUnit property sI u st))
     (snd (fold (claimUnit property sI) s (claimUnit property sI u st)))"
    by (rule Cons.IH)
  with claimUnit_cursor [of st property sI u] show ?case
    using onlyCursor_trans by auto
qed

lemma expandProperty_claim_context:
  assumes "expandProperty_claim property s sI acc c = (res, c')"
  shows "\<exists>c1. onlyCursor c c1 \<and> checkEvery 10 sI c1 = (map_sum id (\<lambda>_. ()) res, c')"
proof -
  obtain m c1 where cs: "claimStructure property sI s (fst acc, c) = (m, c1)"
    by (cases "claimStructure property sI s (fst acc, c)")
  from claimStructure_cursor [of "(fst acc, c)" property sI s] cs have "onlyCursor c c1" by simp
  moreover from assms cs have "checkEvery 10 sI c1 = (map_sum id (\<lambda>_. ()) res, c')"
    by (auto simp: expandProperty_claim_def andThen_def Let_def split: prod.splits sum.splits)
  ultimately show ?thesis by blast
qed

lemma onlyChecks_sameStacks: "onlyChecks c c' \<Longrightarrow> sameStacks c c'"
  using onlyChecks_sameScope sameScope_sameStacks by blast

lemma expandProperty_claim_stacks:
  assumes "expandProperty_claim property s sI acc c = (res, c')"
  shows "sameStacks c c' \<and> (\<forall>e. res = Inl e \<longrightarrow> e = Timeout)"
proof -
  from expandProperty_claim_context [OF assms] obtain c1 where
    c1: "onlyCursor c c1" and k: "checkEvery 10 sI c1 = (map_sum id (\<lambda>_. ()) res, c')" by blast
  from checkEvery_cases [OF k] have "onlyChecks c1 c'" and "\<forall>e. res = Inl e \<longrightarrow> e = Timeout"
    by (auto simp: map_sum_def split: sum.splits)
  with c1 show ?thesis
    using onlyCursor_sameStacks onlyChecks_sameStacks sameStacks_trans by blast
qed

lemma expandProperty_elements_cursor:
  "expandProperty_elements property m uid i es builders c = (res, c') \<Longrightarrow> onlyCursor c c'"
proof (induction es arbitrary: i builders c)
  case Nil
  then show ?case by (simp add: onlyCursor_refl)
next
  case (Cons e es)
  let ?c = "setCursorElement e c"
  have s: "onlyCursor c ?c" by (rule onlyCursor_set)
  show ?case
  proof (cases "m (property ?c)")
    case None
    with Cons.prems have "expandProperty_elements property m uid (Suc i) es builders ?c = (res, c')"
      by (simp add: Let_def)
    from Cons.IH [OF this] s show ?thesis using onlyCursor_trans by blast
  next
    case (Some indices)
    show ?thesis
    proof (cases "addRepeated (length indices) indices i uid e builders")
      case (Inl err)
      with Cons.prems Some have "c' = ?c" by (simp add: Let_def)
      with s show ?thesis by simp
    next
      case (Inr bs)
      with Cons.prems Some have "expandProperty_elements property m uid (Suc i) es bs ?c = (res, c')"
        by (simp add: Let_def)
      from Cons.IH [OF this] s show ?thesis using onlyCursor_trans by blast
    qed
  qed
qed

lemma expandProperty_units_cursor:
  "expandProperty_units property m us builders c = (res, c') \<Longrightarrow> onlyCursor c c'"
proof (induction us arbitrary: builders c)
  case Nil
  then show ?case by (simp add: onlyCursor_refl)
next
  case (Cons u us)
  obtain r1 c1 where e: "expandProperty_elements property m (unit_id u) 0 (elements u) builders
             (setCursorUnit u c) = (r1, c1)"
    by (cases "expandProperty_elements property m (unit_id u) 0 (elements u) builders
             (setCursorUnit u c)")
  from expandProperty_elements_cursor [OF e] onlyCursor_set(1) [of c u]
  have c1: "onlyCursor c c1" using onlyCursor_trans by blast
  show ?case
  proof (cases r1)
    case (Inl err)
    with Cons.prems e have "c' = c1" by simp
    with c1 show ?thesis by simp
  next
    case (Inr bs)
    with Cons.prems e have "expandProperty_units property m us bs c1 = (res, c')" by simp
    from Cons.IH [OF this] c1 show ?thesis using onlyCursor_trans by blast
  qed
qed

lemma pop_after_pushed_cursor:
  assumes "sameStacks (pushCurrentElement c1) c4"
  shows "sameScope c1 (popCurrentElement c4)"
  using assms
  by (simp add: sameStacks_def sameScope_def pushCurrentElement_def popCurrentElement_def)

lemma expandProperty_ok:
  assumes q: "\<forall>c r c'. query c = (Inr r, c') \<longrightarrow> sameScope c c'"
    and run: "expandProperty query property ctx = (Inr r, ctx')"
  shows "sameScope ctx ctx'"
proof -
  from run obtain src c1 where q1: "query ctx = (Inr src, c1)"
    by (auto simp: expandProperty_def andThen_def split: prod.splits sum.splits)
  with q have s1: "sameScope ctx c1" by blast
  from run q1 obtain acc c3 where
    p1: "forEachFrom 0 (structuresOf src) (expandProperty_claim property) (Map.empty, [])
           (pushCurrentElement c1) = (Inr acc, c3)"
    by (auto simp: expandProperty_def andThen_def forEach_def split: prod.splits sum.splits)
  have "\<forall>s sI acc c res c'. expandProperty_claim property s sI acc c = (res, c') \<longrightarrow>
      sameStacks c c' \<and> (\<forall>e. res = Inl e \<longrightarrow> e = Timeout)"
    using expandProperty_claim_stacks by blast
  from forEachFrom_keeps [of sameStacks "expandProperty_claim property" "\<lambda>e. e = Timeout",
      OF _ _ this p1]
  have s3: "sameStacks (pushCurrentElement c1) c3"
    using sameStacks_refl sameStacks_trans by blast
  from run q1 p1 obtain builders c4 where
    p2: "expandProperty_units property (fst acc) (inputStructure c3) (snd acc) c3 = (Inr builders, c4)"
    and fin: "ctx' = popCurrentElement c4"
    by (auto simp: expandProperty_def andThen_def forEach_def Let_def split: prod.splits sum.splits)
  from expandProperty_units_cursor [OF p2] have "sameStacks c3 c4" by (rule onlyCursor_sameStacks)
  with s3 have "sameStacks (pushCurrentElement c1) c4" using sameStacks_trans by blast
  from pop_after_pushed_cursor [OF this] fin s1 show ?thesis using sameScope_trans by blast
qed

lemma forEachFrom_append:
  "forEachFrom sI (pre @ rest) fn acc c =
     (case forEachFrom sI pre fn acc c of
        (Inl e, c') \<Rightarrow> (Inl e, c')
      | (Inr a, c') \<Rightarrow> forEachFrom (sI + length pre) rest fn a c')"
proof (induction pre arbitrary: sI acc c)
  case Nil
  then show ?case by simp
next
  case (Cons s pre)
  obtain r1 c1 where t: "fn s sI acc c = (r1, c1)" by (cases "fn s sI acc c")
  show ?case
  proof (cases r1)
    case (Inl e)
    with t show ?thesis by simp
  next
    case (Inr a)
    with t Cons.IH [of "Suc sI" a c1] show ?thesis by (simp split: prod.split sum.split)
  qed
qed

lemma querySelection_step_inner_error:
  "query (pushInputStructure s c) = (Inl e, c2) \<Longrightarrow>
   querySelection_step query s sI ret c = (Inl e, c2)"
  by (simp add: querySelection_step_def andThen_def)

lemma querySelection_step_returned:
  assumes q: "\<forall>c r c'. query c = (Inr r, c') \<longrightarrow> sameScope c c'"
    and q2: "query (pushInputStructure s c) = (Inr inner, c2)"
  shows "\<exists>c3. sameScope c c3 \<and> checksLeft c3 = checksLeft c2 \<and>
           querySelection_step query s sI ret c =
             andThen (checkEvery 10 sI) (\<lambda>_ c. (Inr (addAll inner ret), c)) c3"
proof -
  from q q2 have "sameScope (pushInputStructure s c) c2" by blast
  then have "inputStructureStack c2 = inputStructure c # inputStructureStack c"
    "element c2 = element c" "currentElementStack c2 = currentElementStack c"
    by (simp_all add: sameScope_def pushInputStructure_def)
  then have "popInputStructure c2 =
      (Inr (), c2\<lparr>inputStructure := inputStructure c, inputStructureStack := inputStructureStack c\<rparr>)"
    "sameScope c (c2\<lparr>inputStructure := inputStructure c, inputStructureStack := inputStructureStack c\<rparr>)"
    by (simp_all add: popInputStructure_def sameScope_def)
  with q2 show ?thesis
    by (intro exI [of _ "c2\<lparr>inputStructure := inputStructure c,
          inputStructureStack := inputStructureStack c\<rparr>"])
      (simp add: querySelection_step_def andThen_def Let_def)
qed

lemma querySelection_step_own_check:
  assumes q: "\<forall>c r c'. query c = (Inr r, c') \<longrightarrow> sameScope c c'"
    and q2: "query (pushInputStructure s c) = (Inr inner, c2)"
    and z: "checksLeft c2 = Some 0" and m: "sI mod 10 = 0"
  shows "\<exists>c'. querySelection_step query s sI ret c = (Inl Timeout, c') \<and> sameScope c c'"
proof -
  from querySelection_step_returned [OF q q2, of sI ret] obtain c3 where
    s3: "sameScope c c3" and k: "checksLeft c3 = checksLeft c2"
    and st: "querySelection_step query s sI ret c =
             andThen (checkEvery 10 sI) (\<lambda>_ c. (Inr (addAll inner ret), c)) c3" by blast
  from k z have "checksLeft c3 = Some 0" by simp
  with m have "checkEvery 10 sI c3 = (Inl Timeout, c3)"
    by (simp add: checkEvery_def throwIfTimedOut_zero)
  with st have "querySelection_step query s sI ret c = (Inl Timeout, c3)"
    by (simp add: andThen_def)
  with s3 show ?thesis by blast
qed

lemma querySelection_step_errors:
  assumes q: "\<forall>c r c'. query c = (Inr r, c') \<longrightarrow> sameScope c c'"
    and run: "querySelection_step query s sI ret c = (res, c')"
  shows "(\<exists>e. res = Inl e \<and> query (pushInputStructure s c) = (Inl e, c')) \<or>
         (sameScope c c' \<and> (\<forall>e. res = Inl e \<longrightarrow> e = Timeout))"
proof -
  obtain r2 c2 where q2: "query (pushInputStructure s c) = (r2, c2)"
    by (cases "query (pushInputStructure s c)")
  show ?thesis
  proof (cases r2)
    case (Inl e)
    with q2 querySelection_step_inner_error [of query s c e c2 sI ret] run show ?thesis by simp
  next
    case (Inr inner)
    with q2 have q3: "query (pushInputStructure s c) = (Inr inner, c2)" by simp
    from querySelection_step_returned [OF q q3, of sI ret] obtain c3 where
      s3: "sameScope c c3"
      and st: "querySelection_step query s sI ret c =
             andThen (checkEvery 10 sI) (\<lambda>_ c. (Inr (addAll inner ret), c)) c3" by blast
    obtain r4 c4 where k: "checkEvery 10 sI c3 = (r4, c4)" by (cases "checkEvery 10 sI c3")
    from run st k have "c' = c4" "\<forall>e. res = Inl e \<longrightarrow> r4 = Inl e"
      by (auto simp: andThen_def split: sum.splits)
    with checkEvery_cases [OF k] checkEvery_sameScope [OF k] s3 show ?thesis
      using sameScope_trans by blast
  qed
qed

lemma querySelection_loop_errors:
  assumes q: "\<forall>c r c'. query c = (Inr r, c') \<longrightarrow> sameScope c c'"
  shows "forEachFrom sI ss (querySelection_step query) acc c = (Inl err, c') \<Longrightarrow>
     (\<exists>s c0. sameScope c c0 \<and> query (pushInputStructure s c0) = (Inl err, c')) \<or>
     (err = Timeout \<and> sameScope c c')"
proof (induction ss arbitrary: sI acc c)
  case Nil
  then show ?case by simp
next
  case (Cons s ss)
  obtain r1 c1 where t: "querySelection_step query s sI acc c = (r1, c1)"
    by (cases "querySelection_step query s sI acc c")
  note d = querySelection_step_errors [OF q t]
  show ?case
  proof (cases r1)
    case (Inl e)
    with Cons.prems t have e: "e = err" "c1 = c'" by simp_all
    from d Inl e show ?thesis using sameScope_refl by blast
  next
    case (Inr a)
    with d have s1: "sameScope c c1" by blast
    from Cons.prems t Inr
    have "forEachFrom (Suc sI) ss (querySelection_step query) a c1 = (Inl err, c')" by simp
    from Cons.IH [OF this] s1 show ?thesis using sameScope_trans by blast
  qed
qed


lemma addRepeated_errors:
  "addRepeated n indices i uid e builders = Inl err \<Longrightarrow> err = TypeError"
proof (induction n arbitrary: builders)
  case 0
  then show ?case by simp
next
  case (Suc n)
  show ?case
  proof (cases "addAtIndex indices i uid e builders")
    case (Inl e1)
    with Suc.prems have "e1 = err" by simp
    with Inl show ?thesis
      by (simp add: addAtIndex_def Let_def split: if_splits option.splits)
  next
    case (Inr bs)
    with Suc.prems have "addRepeated n indices i uid e bs = Inl err" by simp
    then show ?thesis by (rule Suc.IH)
  qed
qed

lemma expandProperty_elements_errors:
  "expandProperty_elements property m uid i es builders c = (Inl err, c') \<Longrightarrow> err = TypeError"
proof (induction es arbitrary: i builders c)
  case Nil
  then show ?case by simp
next
  case (Cons e es)
  let ?c = "setCursorElement e c"
  show ?case
  proof (cases "m (property ?c)")
    case None
    with Cons.prems
    have "expandProperty_elements property m uid (Suc i) es builders ?c = (Inl err, c')"
      by (simp add: Let_def)
    then show ?thesis by (rule Cons.IH)
  next
    case (Some indices)
    show ?thesis
    proof (cases "addRepeated (length indices) indices i uid e builders")
      case (Inl e1)
      with Cons.prems Some have "e1 = err" by (simp add: Let_def)
      with Inl show ?thesis using addRepeated_errors by blast
    next
      case (Inr bs)
      with Cons.prems Some
      have "expandProperty_elements property m uid (Suc i) es bs ?c = (Inl err, c')"
        by (simp add: Let_def)
      then show ?thesis by (rule Cons.IH)
    qed
  qed
qed

lemma expandProperty_units_errors:
  "expandProperty_units property m us builders c = (Inl err, c') \<Longrightarrow> err = TypeError"
proof (induction us arbitrary: builders c)
  case Nil
  then show ?case by simp
next
  case (Cons u us)
  obtain r1 c1 where e: "expandProperty_elements property m (unit_id u) 0 (elements u) builders
             (setCursorUnit u c) = (r1, c1)"
    by (cases "expandProperty_elements property m (unit_id u) 0 (elements u) builders
             (setCursorUnit u c)")
  show ?case
  proof (cases r1)
    case (Inl e1)
    with Cons.prems e have "e1 = err" by simp
    with Inl e show ?thesis using expandProperty_elements_errors by blast
  next
    case (Inr bs)
    with Cons.prems e have "expandProperty_units property m us bs c1 = (Inl err, c')" by simp
    then show ?thesis by (rule Cons.IH)
  qed
qed

lemma addStructures_errors: "addStructures bs ret = Inl err \<Longrightarrow> err = TypeError"
  by (induction bs ret rule: addStructures.induct) simp_all

lemma expandProperty_timeout_cursor:
  assumes q1: "query ctx = (Inr src, c1)"
    and run: "expandProperty query property ctx = (Inl Timeout, ctx')"
  shows "sameStacks (pushCurrentElement c1) ctx'"
proof -
  obtain r3 c3 where
    p1: "forEachFrom 0 (structuresOf src) (expandProperty_claim property) (Map.empty, [])
           (pushCurrentElement c1) = (r3, c3)"
    by (cases "forEachFrom 0 (structuresOf src) (expandProperty_claim property) (Map.empty, [])
           (pushCurrentElement c1)")
  have "\<forall>s sI acc c res c'. expandProperty_claim property s sI acc c = (res, c') \<longrightarrow>
      sameStacks c c' \<and> (\<forall>e. res = Inl e \<longrightarrow> e = Timeout)"
    using expandProperty_claim_stacks by blast
  from forEachFrom_keeps [of sameStacks "expandProperty_claim property" "\<lambda>e. e = Timeout",
      OF _ _ this p1]
  have s3: "sameStacks (pushCurrentElement c1) c3"
    using sameStacks_refl sameStacks_trans by blast
  show ?thesis
  proof (cases r3)
    case (Inl e)
    with run q1 p1 have "ctx' = c3"
      by (simp add: expandProperty_def andThen_def forEach_def)
    with s3 show ?thesis by simp
  next
    case (Inr acc)
    obtain r4 c4 where
      p2: "expandProperty_units property (fst acc) (inputStructure c3) (snd acc) c3 = (r4, c4)"
      by (cases "expandProperty_units property (fst acc) (inputStructure c3) (snd acc) c3")
    show ?thesis
    proof (cases r4)
      case (Inl e)
      with run q1 p1 p2 \<open>r3 = Inr acc\<close> have "e = Timeout"
        by (simp add: expandProperty_def andThen_def forEach_def)
      moreover from p2 Inl have "e = TypeError" using expandProperty_units_errors by blast
      ultimately show ?thesis by simp
    next
      case (Inr builders)
      with run q1 p1 p2 \<open>r3 = Inr acc\<close> obtain ret0 where
        "addStructures builders ret0 = Inl Timeout"
        by (auto simp: expandProperty_def andThen_def forEach_def Let_def split: sum.splits)
      then have "Timeout = TypeError" by (rule addStructures_errors)
      then show ?thesis by simp
    qed
  qed
qed

lemma wholeResidues_add_context:
  "wholeResidues_add s sI acc c = (res, c') \<Longrightarrow>
   onlyChecks c c' \<and> (\<forall>e. res = Inl e \<longrightarrow> e = Timeout)"
proof -
  assume run: "wholeResidues_add s sI acc c = (res, c')"
  obtain r1 c1 where g: "getWholeResidues (inputStructure c) s c = (r1, c1)"
    by (cases "getWholeResidues (inputStructure c) s c")
  from run g have "c' = c1" "\<forall>e. res = Inl e \<longrightarrow> r1 = Inl e"
    by (auto simp: wholeResidues_add_def andThen_def split: sum.splits)
  with getWholeResidues_context [OF g] show ?thesis by blast
qed

lemma wholeResidues_scope:
  assumes q: "\<forall>c r c'. query c = (Inr r, c') \<longrightarrow> sameScope c c'"
  shows "\<forall>c r c'. wholeResidues query c = (Inr r, c') \<longrightarrow> sameScope c c'"
proof (intro allI impI)
  fix c r c'
  assume run: "wholeResidues query c = (Inr r, c')"
  then obtain inner c1 where q1: "query c = (Inr inner, c1)"
    by (auto simp: wholeResidues_def andThen_def split: prod.splits sum.splits)
  with q have s1: "sameScope c c1" by blast
  have "onlyChecks c1 c'"
  proof (cases inner)
    case (Singletons src s)
    with run q1 obtain r2 where "getWholeResidues (inputStructure c1) s c1 = (r2, c')"
      by (auto simp: wholeResidues_def andThen_def split: prod.splits sum.splits)
    from getWholeResidues_context [OF this] show ?thesis by blast
  next
    case (Sequence src ss)
    with run q1 obtain r2 where
      l: "forEachFrom 0 ss wholeResidues_add (UniqueBuilder (inputStructure c1)) c1 = (r2, c')"
      by (auto simp: wholeResidues_def andThen_def split: prod.splits sum.splits)
    have "\<forall>s sI acc c res c'. wholeResidues_add s sI acc c = (res, c') \<longrightarrow>
      onlyChecks c c' \<and> (\<forall>e. res = Inl e \<longrightarrow> e = Timeout)"
      using wholeResidues_add_context by blast
    from forEachFrom_context [OF this l] show ?thesis by blast
  qed
  then have "sameScope c1 c'" by (rule onlyChecks_sameScope)
  with s1 show "sameScope c c'" using sameScope_trans by blast
qed

text \<open>
  C2, as the claim states it, fails: no scope-exit restoration runs on a timeout. A
  timeout of the deadline check in the first pass of \<open>expandProperty\<close> leaves the
  pushed cursor on the cursor stack and the cursor at the last atom visited; a timeout
  raised inside the inner query of \<open>querySelection\<close> leaves the structure pushed.
\<close>

theorem no_restoration_counterexample:
  "expandProperty (constQuery (Sequence source20 [[unit0\<lparr>elements := [7]\<rparr>]])) residueOf
     (initialContext source20 (Some 0))
   = (Inl Timeout, (initialContext source20 (Some 0))
       \<lparr>element := \<lparr>el_unit = Some (unit0\<lparr>elements := [7]\<rparr>), el_element = Some 7\<rparr>,
         currentElementStack := [StructureElement_create]\<rparr>) \<and>
   currentElementStack (initialContext source20 (Some 0)) = [] \<and>
   querySelection (constQuery (Sequence source20 [[unit0\<lparr>elements := [3]\<rparr>]]))
     (wholeResidues (constQuery (Singletons source20 [unit0\<lparr>elements := [3]\<rparr>])))
     (initialContext source20 (Some 0))
   = (Inl Timeout, (initialContext source20 (Some 0))
       \<lparr>inputStructure := [unit0\<lparr>elements := [3]\<rparr>], inputStructureStack := [source20]\<rparr>) \<and>
   inputStructureStack (initialContext source20 (Some 0)) = []"
  using expandProperty_timeout querySelection_inner_timeout by (simp add: initialContext_def)

text \<open>
  C2, amended. There is no scope guard. When \<open>querySelection\<close> or \<open>expandProperty\<close>
  returns normally, the input-structure stack and the cursor are as before the call,
  provided the queries they call leave them so on their own normal return; those
  queries may raise. When the deadline check of \<open>querySelection\<close> itself raises, that
  is, when the earlier iterations and the inner query of the current one have returned,
  the deadline has passed and the index is a multiple of 10, the pop has run and the
  timeout propagates with the stack and the cursor as before the call. When the inner
  query raises, its error propagates with the context as the inner query left it: no
  pop runs. So an error of \<open>querySelection\<close> is the error of its outer query, or the
  error of its inner query evaluated in a pushed scope, or the timeout of its own check
  with the scope restored. A timeout of \<open>expandProperty\<close>, once its query has returned,
  propagates with the cursor still pushed.
\<close>

theorem scope_restored_on_return:
  "((\<forall>c r c'. selection c = (Inr r, c') \<longrightarrow> sameScope c c') \<and>
    (\<forall>c r c'. query c = (Inr r, c') \<longrightarrow> sameScope c c') \<and>
    querySelection selection query ctx = (Inr sel, ctx') \<longrightarrow> sameScope ctx ctx') \<and>
   ((\<forall>c r c'. query c = (Inr r, c') \<longrightarrow> sameScope c c') \<and>
    expandProperty query property ctx = (Inr sel, ctx') \<longrightarrow> sameScope ctx ctx') \<and>
   ((\<forall>c r c'. selection c = (Inr r, c') \<longrightarrow> sameScope c c') \<and>
    (\<forall>c r c'. query c = (Inr r, c') \<longrightarrow> sameScope c c') \<and>
    selection ctx = (Inr targetSel, c0) \<and> structuresOf targetSel = pre @ s # post \<and>
    forEachFrom 0 pre (querySelection_step query) (UniqueBuilder (inputStructure c0)) c0
      = (Inr ret, c1) \<and>
    query (pushInputStructure s c1) = (Inr inner, c2) \<and>
    checksLeft c2 = Some 0 \<and> length pre mod 10 = 0 \<longrightarrow>
      (\<exists>c3. querySelection selection query ctx = (Inl Timeout, c3) \<and> sameScope ctx c3)) \<and>
   (selection ctx = (Inr targetSel, c0) \<and> structuresOf targetSel = pre @ s # post \<and>
    forEachFrom 0 pre (querySelection_step query) (UniqueBuilder (inputStructure c0)) c0
      = (Inr ret, c1) \<and>
    query (pushInputStructure s c1) = (Inl err, c2) \<longrightarrow>
      querySelection selection query ctx = (Inl err, c2)) \<and>
   ((\<forall>c r c'. selection c = (Inr r, c') \<longrightarrow> sameScope c c') \<and>
    (\<forall>c r c'. query c = (Inr r, c') \<longrightarrow> sameScope c c') \<and>
    querySelection selection query ctx = (Inl err, ctx') \<longrightarrow>
      selection ctx = (Inl err, ctx') \<or>
      (\<exists>s c. sameScope ctx c \<and> query (pushInputStructure s c) = (Inl err, ctx')) \<or>
      (err = Timeout \<and> sameScope ctx ctx')) \<and>
   (query ctx = (Inr src, c1) \<and> expandProperty query property ctx = (Inl Timeout, ctx') \<longrightarrow>
      currentElementStack ctx' = element c1 # currentElementStack c1 \<and>
      inputStructure ctx' = inputStructure c1 \<and>
      inputStructureStack ctx' = inputStructureStack c1)"
proof (intro conjI impI)
  assume h: "(\<forall>c r c'. selection c = (Inr r, c') \<longrightarrow> sameScope c c') \<and>
    (\<forall>c r c'. query c = (Inr r, c') \<longrightarrow> sameScope c c') \<and>
    querySelection selection query ctx = (Inr sel, ctx')"
  then obtain targetSel c1 where t: "selection ctx = (Inr targetSel, c1)"
    by (auto simp: querySelection_def andThen_def split: prod.splits sum.splits)
  with h have s1: "sameScope ctx c1" by blast
  show "sameScope ctx ctx'"
  proof (cases "structureCount targetSel = 0")
    case True
    with h t have "ctx' = c1" by (simp add: querySelection_def andThen_def)
    with s1 show ?thesis by simp
  next
    case False
    with h t obtain ret where
      run: "forEachFrom 0 (structuresOf targetSel) (querySelection_step query)
              (UniqueBuilder (inputStructure c1)) c1 = (Inr ret, ctx')"
      by (auto simp: querySelection_def andThen_def forEach_def split: prod.splits sum.splits)
    have "\<forall>s sI acc c a c'. querySelection_step query s sI acc c = (Inr a, c') \<longrightarrow> sameScope c c'"
      using querySelection_step_ok h by blast
    from forEachFrom_keeps_ok [of sameScope "querySelection_step query", OF _ _ this run]
    have "sameScope c1 ctx'" using sameScope_refl sameScope_trans by blast
    with s1 show ?thesis using sameScope_trans by blast
  qed
next
  assume "(\<forall>c r c'. query c = (Inr r, c') \<longrightarrow> sameScope c c') \<and>
    expandProperty query property ctx = (Inr sel, ctx')"
  then show "sameScope ctx ctx'" using expandProperty_ok by blast
next
  assume h: "(\<forall>c r c'. selection c = (Inr r, c') \<longrightarrow> sameScope c c') \<and>
    (\<forall>c r c'. query c = (Inr r, c') \<longrightarrow> sameScope c c') \<and>
    selection ctx = (Inr targetSel, c0) \<and> structuresOf targetSel = pre @ s # post \<and>
    forEachFrom 0 pre (querySelection_step query) (UniqueBuilder (inputStructure c0)) c0
      = (Inr ret, c1) \<and>
    query (pushInputStructure s c1) = (Inr inner, c2) \<and>
    checksLeft c2 = Some 0 \<and> length pre mod 10 = 0"
  then have ks: "\<forall>c r c'. selection c = (Inr r, c') \<longrightarrow> sameScope c c'"
    and kq: "\<forall>c r c'. query c = (Inr r, c') \<longrightarrow> sameScope c c'"
    and t: "selection ctx = (Inr targetSel, c0)"
    and ss: "structuresOf targetSel = pre @ s # post"
    and p: "forEachFrom 0 pre (querySelection_step query) (UniqueBuilder (inputStructure c0)) c0
      = (Inr ret, c1)"
    and q2: "query (pushInputStructure s c1) = (Inr inner, c2)"
    and z: "checksLeft c2 = Some 0" and m: "length pre mod 10 = 0"
    by blast+
  from ks t have s0: "sameScope ctx c0" by blast
  have "\<forall>s sI acc c a c'. querySelection_step query s sI acc c = (Inr a, c') \<longrightarrow> sameScope c c'"
    using querySelection_step_ok kq by blast
  from forEachFrom_keeps_ok [of sameScope "querySelection_step query", OF _ _ this p]
  have s1: "sameScope c0 c1" using sameScope_refl sameScope_trans by blast
  from querySelection_step_own_check [OF kq q2 z m, of ret] obtain c3 where
    st: "querySelection_step query s (length pre) ret c1 = (Inl Timeout, c3)"
    and s3: "sameScope c1 c3" by blast
  from p st have "forEachFrom 0 (pre @ s # post) (querySelection_step query)
      (UniqueBuilder (inputStructure c0)) c0 = (Inl Timeout, c3)"
    by (simp add: forEachFrom_append)
  with t ss have "querySelection selection query ctx = (Inl Timeout, c3)"
    by (simp add: querySelection_def andThen_def forEach_def structureCount_def)
  moreover from s0 s1 s3 have "sameScope ctx c3" using sameScope_trans by blast
  ultimately show "\<exists>c3. querySelection selection query ctx = (Inl Timeout, c3) \<and> sameScope ctx c3"
    by blast
next
  assume h: "selection ctx = (Inr targetSel, c0) \<and> structuresOf targetSel = pre @ s # post \<and>
    forEachFrom 0 pre (querySelection_step query) (UniqueBuilder (inputStructure c0)) c0
      = (Inr ret, c1) \<and>
    query (pushInputStructure s c1) = (Inl err, c2)"
  then have t: "selection ctx = (Inr targetSel, c0)"
    and ss: "structuresOf targetSel = pre @ s # post"
    and p: "forEachFrom 0 pre (querySelection_step query) (UniqueBuilder (inputStructure c0)) c0
      = (Inr ret, c1)"
    and q2: "query (pushInputStructure s c1) = (Inl err, c2)"
    by blast+
  from querySelection_step_inner_error [where query = query and s = s and c = c1 and e = err
      and ?c2.0 = c2 and sI = "length pre" and ret = ret] q2 p
  have "forEachFrom 0 (pre @ s # post) (querySelection_step query)
      (UniqueBuilder (inputStructure c0)) c0 = (Inl err, c2)"
    by (simp add: forEachFrom_append)
  with t ss show "querySelection selection query ctx = (Inl err, c2)"
    by (simp add: querySelection_def andThen_def forEach_def structureCount_def)
next
  assume h: "(\<forall>c r c'. selection c = (Inr r, c') \<longrightarrow> sameScope c c') \<and>
    (\<forall>c r c'. query c = (Inr r, c') \<longrightarrow> sameScope c c') \<and>
    querySelection selection query ctx = (Inl err, ctx')"
  then have ks: "\<forall>c r c'. selection c = (Inr r, c') \<longrightarrow> sameScope c c'"
    and kq: "\<forall>c r c'. query c = (Inr r, c') \<longrightarrow> sameScope c c'"
    and run: "querySelection selection query ctx = (Inl err, ctx')"
    by blast+
  obtain r0 c0 where t: "selection ctx = (r0, c0)" by (cases "selection ctx")
  show "selection ctx = (Inl err, ctx') \<or>
      (\<exists>s c. sameScope ctx c \<and> query (pushInputStructure s c) = (Inl err, ctx')) \<or>
      (err = Timeout \<and> sameScope ctx ctx')"
  proof (cases r0)
    case (Inl e)
    with run t have "selection ctx = (Inl err, ctx')"
      by (simp add: querySelection_def andThen_def)
    then show ?thesis by blast
  next
    case (Inr targetSel)
    with ks t have s0: "sameScope ctx c0" by blast
    have n: "structureCount targetSel \<noteq> 0"
    proof
      assume "structureCount targetSel = 0"
      with run t Inr show False by (simp add: querySelection_def andThen_def)
    qed
    with run t Inr have
      l: "forEachFrom 0 (structuresOf targetSel) (querySelection_step query)
            (UniqueBuilder (inputStructure c0)) c0 = (Inl err, ctx')"
      by (auto simp: querySelection_def andThen_def forEach_def split: prod.splits sum.splits)
    from querySelection_loop_errors [OF kq l] s0 show ?thesis
      using sameScope_trans by blast
  qed
next
  assume h: "query ctx = (Inr src, c1) \<and> expandProperty query property ctx = (Inl Timeout, ctx')"
  then have "sameStacks (pushCurrentElement c1) ctx'"
    using expandProperty_timeout_cursor by blast
  then show "currentElementStack ctx' = element c1 # currentElementStack c1"
    "inputStructure ctx' = inputStructure c1"
    "inputStructureStack ctx' = inputStructureStack c1"
    by (simp_all add: sameStacks_def pushCurrentElement_def)
qed

lemma constQuery_scope: "\<forall>c r c'. constQuery x c = (Inr r, c') \<longrightarrow> sameScope c c'"
  by (simp add: constQuery_def sameScope_refl)

lemma querySelection_example:
  "querySelection (constQuery (Sequence source20 [[unit0\<lparr>elements := [3]\<rparr>]]))
     (constQuery (Sequence source20 [[unit0\<lparr>elements := [3]\<rparr>]]))
     (initialContext source20 None)
   = (Inr (Sequence source20 [[unit0\<lparr>elements := [3]\<rparr>]]), initialContext source20 None)"
  by (simp add: querySelection_def querySelection_step_def constQuery_def andThen_def forEach_def
      structureCount_def pushInputStructure_def popInputStructure_def checkEvery_def
      throwIfTimedOut_def initialContext_def addAll_def uniqueAdd_def UniqueBuilder_def
      getSelection_def Let_def)

lemma expandProperty_example:
  "expandProperty
     (constQuery (Sequence [unit0\<lparr>elements := [5, 6]\<rparr>]
        [[unit0\<lparr>elements := [5]\<rparr>], [unit0\<lparr>elements := [6]\<rparr>]])) residueOf
     (initialContext [unit0\<lparr>elements := [5, 6]\<rparr>] None)
   = (Inr (Sequence [unit0\<lparr>elements := [5, 6]\<rparr>]
        [[unit0\<lparr>elements := [5]\<rparr>], [unit0\<lparr>elements := [6]\<rparr>]]),
      initialContext [unit0\<lparr>elements := [5, 6]\<rparr>] None)"
  by (simp add: ep_defs unit0_def)

theorem scope_restored_on_return_witness:
  "sameScope (initialContext source20 None) (initialContext source20 None) \<and>
   sameScope (initialContext [unit0\<lparr>elements := [5, 6]\<rparr>] None)
     (initialContext [unit0\<lparr>elements := [5, 6]\<rparr>] None) \<and>
   (\<exists>c3. querySelection (constQuery (Sequence source20 [[unit0\<lparr>elements := [3]\<rparr>]]))
       (wholeResidues (constQuery (Singletons source20 [unit0\<lparr>elements := [3]\<rparr>])))
       (initialContext source20 (Some 1)) = (Inl Timeout, c3) \<and>
     sameScope (initialContext source20 (Some 1)) c3) \<and>
   querySelection (constQuery (Sequence source20 [[unit0\<lparr>elements := [3]\<rparr>]]))
     (wholeResidues (constQuery (Singletons source20 [unit0\<lparr>elements := [3]\<rparr>])))
     (initialContext source20 (Some 0))
   = (Inl Timeout, (initialContext source20 (Some 0))
       \<lparr>inputStructure := [unit0\<lparr>elements := [3]\<rparr>], inputStructureStack := [source20]\<rparr>) \<and>
   (constQuery (Sequence source20 [[unit0\<lparr>elements := [3]\<rparr>]]) (initialContext source20 (Some 1))
      = (Inl Timeout, initialContext source20 (Some 0)) \<or>
    (\<exists>s c. sameScope (initialContext source20 (Some 1)) c \<and>
       wholeResidues (constQuery (Singletons source20 [unit0\<lparr>elements := [3]\<rparr>]))
         (pushInputStructure s c) = (Inl Timeout, initialContext source20 (Some 0))) \<or>
    (Timeout = Timeout \<and>
     sameScope (initialContext source20 (Some 1)) (initialContext source20 (Some 0)))) \<and>
   currentElementStack ((initialContext source20 (Some 0))
       \<lparr>element := \<lparr>el_unit = Some (unit0\<lparr>elements := [7]\<rparr>), el_element = Some 7\<rparr>,
         currentElementStack := [StructureElement_create]\<rparr>)
     = element (initialContext source20 (Some 0)) #
       currentElementStack (initialContext source20 (Some 0))"
proof -
  let ?q = "constQuery (Sequence source20 [[unit0\<lparr>elements := [3]\<rparr>]])"
  let ?w = "wholeResidues (constQuery (Singletons source20 [unit0\<lparr>elements := [3]\<rparr>]))"
  let ?e = "constQuery (Sequence [unit0\<lparr>elements := [5, 6]\<rparr>]
        [[unit0\<lparr>elements := [5]\<rparr>], [unit0\<lparr>elements := [6]\<rparr>]])"
  let ?t = "constQuery (Sequence source20 [[unit0\<lparr>elements := [7]\<rparr>]])"
  let ?c1 = "initialContext source20 (Some 1)"
  let ?c0 = "initialContext source20 (Some 0)"
  let ?p = "(initialContext source20 (Some 0))
       \<lparr>inputStructure := [unit0\<lparr>elements := [3]\<rparr>], inputStructureStack := [source20]\<rparr>"
  have kw: "\<forall>c r c'. ?w c = (Inr r, c') \<longrightarrow> sameScope c c'"
    by (rule wholeResidues_scope [OF constQuery_scope])
  have sq1: "?q ?c1 = (Inr (Sequence source20 [[unit0\<lparr>elements := [3]\<rparr>]]), ?c1)"
    and sq0: "?q ?c0 = (Inr (Sequence source20 [[unit0\<lparr>elements := [3]\<rparr>]]), ?c0)"
    and tq0: "?t ?c0 = (Inr (Sequence source20 [[unit0\<lparr>elements := [7]\<rparr>]]), ?c0)"
    by (simp_all add: constQuery_def)
  have sp: "structuresOf (Sequence source20 [[unit0\<lparr>elements := [3]\<rparr>]])
      = [] @ [unit0\<lparr>elements := [3]\<rparr>] # []" by simp
  have l1: "forEachFrom 0 [] (querySelection_step ?w) (UniqueBuilder (inputStructure ?c1)) ?c1
      = (Inr (UniqueBuilder (inputStructure ?c1)), ?c1)"
    and l0: "forEachFrom 0 [] (querySelection_step ?w) (UniqueBuilder (inputStructure ?c0)) ?c0
      = (Inr (UniqueBuilder (inputStructure ?c0)), ?c0)" by simp_all
  have z: "checksLeft ?p = Some 0" by (simp add: initialContext_def)
  have m: "length ([] :: Structure list) mod 10 = 0" by simp
  note a = scope_restored_on_return [where selection = ?q and query = ?q
      and ctx = "initialContext source20 None" and ctx' = "initialContext source20 None"
      and sel = "Sequence source20 [[unit0\<lparr>elements := [3]\<rparr>]]",
      THEN conjunct1, rule_format,
      OF conjI [OF constQuery_scope conjI [OF constQuery_scope querySelection_example]]]
  note b = scope_restored_on_return [where query = ?e and property = residueOf
      and ctx = "initialContext [unit0\<lparr>elements := [5, 6]\<rparr>] None"
      and ctx' = "initialContext [unit0\<lparr>elements := [5, 6]\<rparr>] None"
      and sel = "Sequence [unit0\<lparr>elements := [5, 6]\<rparr>]
        [[unit0\<lparr>elements := [5]\<rparr>], [unit0\<lparr>elements := [6]\<rparr>]]",
      THEN conjunct2, THEN conjunct1, rule_format,
      OF conjI [OF constQuery_scope expandProperty_example]]
  note c = scope_restored_on_return [where selection = ?q and query = ?w
      and ctx = ?c1 and ?c0.0 = ?c1 and ?c1.0 = ?c1 and ?c2.0 = ?p
      and targetSel = "Sequence source20 [[unit0\<lparr>elements := [3]\<rparr>]]"
      and pre = "[]" and s = "[unit0\<lparr>elements := [3]\<rparr>]" and post = "[]"
      and ret = "UniqueBuilder (inputStructure ?c1)"
      and inner = "Singletons [unit0\<lparr>elements := [3]\<rparr>] [unit0\<lparr>elements := [0, 1, 2, 3, 4]\<rparr>]",
      THEN conjunct2, THEN conjunct2, THEN conjunct1, rule_format,
      OF conjI [OF constQuery_scope conjI [OF kw conjI [OF sq1 conjI [OF sp conjI [OF l1
        conjI [OF wholeResidues_pushed_example conjI [OF z m]]]]]]]]
  note d = scope_restored_on_return [where selection = ?q and query = ?w
      and ctx = ?c0 and ?c0.0 = ?c0 and ?c1.0 = ?c0 and ?c2.0 = ?p and err = Timeout
      and targetSel = "Sequence source20 [[unit0\<lparr>elements := [3]\<rparr>]]"
      and pre = "[]" and s = "[unit0\<lparr>elements := [3]\<rparr>]" and post = "[]"
      and ret = "UniqueBuilder (inputStructure ?c0)",
      THEN conjunct2, THEN conjunct2, THEN conjunct2, THEN conjunct1, rule_format,
      OF conjI [OF sq0 conjI [OF sp conjI [OF l0 wholeResidues_pushed_timeout]]]]
  note e = scope_restored_on_return [where selection = ?q and query = ?w
      and ctx = ?c1 and ctx' = ?c0 and err = Timeout,
      THEN conjunct2, THEN conjunct2, THEN conjunct2, THEN conjunct2, THEN conjunct1, rule_format,
      OF conjI [OF constQuery_scope conjI [OF kw querySelection_own_check_example]]]
  note f = scope_restored_on_return [where query = ?t and property = residueOf
      and ctx = ?c0 and ?c1.0 = ?c0 and src = "Sequence source20 [[unit0\<lparr>elements := [7]\<rparr>]]"
      and ctx' = "(initialContext source20 (Some 0))
       \<lparr>element := \<lparr>el_unit = Some (unit0\<lparr>elements := [7]\<rparr>), el_element = Some 7\<rparr>,
         currentElementStack := [StructureElement_create]\<rparr>",
      THEN conjunct2, THEN conjunct2, THEN conjunct2, THEN conjunct2, THEN conjunct2, rule_format,
      OF conjI [OF tq0 expandProperty_timeout], THEN conjunct1]
  from a b c d e f show ?thesis by (intro conjI)
qed

section \<open>Stride of the deadline checks\<close>

lemma stride_10: "\<exists>j. sI \<le> j \<and> j < sI + 10 \<and> j mod 10 = (0::nat)"
  by presburger

lemma stride_50: "\<exists>j. sI \<le> j \<and> j < sI + 50 \<and> j mod 50 = (0::nat)"
  by presburger

lemma forEachFrom_stride:
  assumes hit: "\<forall>s sI acc c. checksLeft c = Some 0 \<and> sI mod n = 0 \<longrightarrow>
                  (\<exists>e c'. fn s sI acc c = (Inl e, c'))"
    and keep: "\<forall>s sI acc c a c'. checksLeft c = Some 0 \<and> fn s sI acc c = (Inr a, c') \<longrightarrow>
                  checksLeft c' = Some 0"
  shows "checksLeft c = Some 0 \<Longrightarrow> \<exists>j. sI \<le> j \<and> j < sI + length ss \<and> j mod n = 0 \<Longrightarrow>
         \<exists>e c'. forEachFrom sI ss fn acc c = (Inl e, c')"
proof (induction ss arbitrary: sI acc c)
  case Nil
  then show ?case by auto
next
  case (Cons s ss)
  obtain r1 c1 where t: "fn s sI acc c = (r1, c1)" by (cases "fn s sI acc c")
  show ?case
  proof (cases r1)
    case (Inl e)
    with t show ?thesis by simp
  next
    case (Inr a)
    have "sI mod n \<noteq> 0"
    proof
      assume "sI mod n = 0"
      with Cons.prems(1) have "checksLeft c = Some 0 \<and> sI mod n = 0" by simp
      from hit [rule_format, OF this] obtain e c' where "fn s sI acc c = (Inl e, c')" by blast
      with t Inr show False by simp
    qed
    with Cons.prems(2) have j: "\<exists>j. Suc sI \<le> j \<and> j < Suc sI + length ss \<and> j mod n = 0"
      by (metis Suc_leI add_Suc add_Suc_right le_neq_implies_less length_Cons)
    from keep t Inr Cons.prems(1) have "checksLeft c1 = Some 0" by blast
    from Cons.IH [OF this j] t Inr show ?thesis by simp
  qed
qed

lemma checkEvery_zero:
  "checksLeft c = Some 0 \<Longrightarrow>
   checkEvery n sI c = (if sI mod n = 0 then (Inl Timeout, c) else (Inr (), c))"
  by (simp add: checkEvery_def throwIfTimedOut_zero)

lemma forEachFrom_pure_stride:
  assumes fn: "\<And>s sI acc c. fn s sI acc c = andThen (checkEvery n sI) (\<lambda>_ c'. (Inr (g s acc), c')) c"
    and z: "checksLeft c = Some 0"
    and j: "\<exists>j. sI \<le> j \<and> j < sI + length ss \<and> j mod n = 0"
  shows "forEachFrom sI ss fn acc c = (Inl Timeout, c)"
  using j
proof (induction ss arbitrary: sI acc)
  case Nil
  then show ?case by auto
next
  case (Cons s ss)
  show ?case
  proof (cases "sI mod n = 0")
    case True
    then have "fn s sI acc c = (Inl Timeout, c)"
      by (simp only: fn) (simp add: andThen_def checkEvery_zero [OF z])
    then show ?thesis by simp
  next
    case False
    then have "fn s sI acc c = (Inr (g s acc), c)"
      by (simp only: fn) (simp add: andThen_def checkEvery_zero [OF z])
    moreover from False Cons.prems
    have "\<exists>j. Suc sI \<le> j \<and> j < Suc sI + length ss \<and> j mod n = 0"
      by (metis Suc_leI add_Suc add_Suc_right le_neq_implies_less length_Cons)
    ultimately show ?thesis using Cons.IH by simp
  qed
qed

lemma units_stride:
  "checksLeft c = Some 0 \<Longrightarrow> \<exists>u \<in> set us. kind u = Atomic \<Longrightarrow>
   getWholeResidues_units b us c = (Inl Timeout, c)"
proof (induction us arbitrary: b)
  case Nil
  then show ?case by simp
next
  case (Cons u us)
  show ?case
  proof (cases "kind u = Atomic")
    case True
    with Cons.prems(1) show ?thesis by (simp add: andThen_def throwIfTimedOut_zero Let_def)
  next
    case False
    with Cons.prems(2) have "\<exists>u \<in> set us. kind u = Atomic" by auto
    from Cons.IH [OF Cons.prems(1) this] False show ?thesis by simp
  qed
qed

lemma surroundings_stride:
  "checksLeft c = Some 0 \<Longrightarrow> us \<noteq> [] \<Longrightarrow>
   getIncludeSurroundings_units lookup r b us c = (Inl Timeout, c)"
  by (cases us) (simp_all add: andThen_def throwIfTimedOut_zero)

lemma expandProperty_claim_hit:
  assumes "checksLeft c = Some 0"
  shows "sI mod 10 = 0 \<longrightarrow> (\<exists>c'. expandProperty_claim property s sI acc c = (Inl Timeout, c'))"
    and "expandProperty_claim property s sI acc c = (Inr a, c') \<longrightarrow> checksLeft c' = Some 0"
proof -
  obtain m c1 where cs: "claimStructure property sI s (fst acc, c) = (m, c1)"
    by (cases "claimStructure property sI s (fst acc, c)")
  from claimStructure_cursor [of "(fst acc, c)" property sI s] cs have "onlyCursor c c1" by simp
  with assms have z: "checksLeft c1 = Some 0" using onlyCursor_checksLeft by simp
  show "sI mod 10 = 0 \<longrightarrow> (\<exists>c'. expandProperty_claim property s sI acc c = (Inl Timeout, c'))"
    by (simp add: expandProperty_claim_def cs andThen_def Let_def checkEvery_zero [OF z])
  show "expandProperty_claim property s sI acc c = (Inr a, c') \<longrightarrow> checksLeft c' = Some 0"
    using z by (auto simp: expandProperty_claim_def cs andThen_def Let_def checkEvery_zero [OF z]
        split: if_splits)
qed

lemma querySelection_step_hit:
  assumes q: "\<forall>c res c'. checksLeft c = Some 0 \<and> query c = (res, c') \<longrightarrow> checksLeft c' = Some 0"
    and z: "checksLeft c = Some 0"
  shows "sI mod 10 = 0 \<longrightarrow> (\<exists>e c'. querySelection_step query s sI ret c = (Inl e, c'))"
    and "querySelection_step query s sI ret c = (Inr a, c') \<longrightarrow> checksLeft c' = Some 0"
proof -
  obtain r1 c1 where q1: "query (pushInputStructure s c) = (r1, c1)"
    by (cases "query (pushInputStructure s c)")
  have "checksLeft (pushInputStructure s c) = Some 0" using z by (simp add: pushInputStructure_def)
  with q q1 have z1: "checksLeft c1 = Some 0" by blast
  obtain r2 c2 where p: "popInputStructure c1 = (r2, c2)" by (cases "popInputStructure c1")
  with z1 have z2: "checksLeft c2 = Some 0"
    by (auto simp: popInputStructure_def split: list.splits)
  show "sI mod 10 = 0 \<longrightarrow> (\<exists>e c'. querySelection_step query s sI ret c = (Inl e, c'))"
    by (cases r1; cases r2)
      (simp_all add: querySelection_step_def q1 p andThen_def Let_def checkEvery_zero [OF z2])
  show "querySelection_step query s sI ret c = (Inr a, c') \<longrightarrow> checksLeft c' = Some 0"
    using z2
    by (cases r1; cases r2)
      (auto simp: querySelection_step_def q1 p andThen_def Let_def checkEvery_zero [OF z2]
        split: if_splits)
qed

lemma stride_from_length:
  "10 \<le> length ss \<Longrightarrow> \<exists>j. sI \<le> j \<and> j < sI + length ss \<and> j mod 10 = (0::nat)"
  "50 \<le> length ss \<Longrightarrow> \<exists>j. sI \<le> j \<and> j < sI + length ss \<and> j mod 50 = (0::nat)"
proof -
  assume "10 \<le> length ss"
  then have l: "sI + 10 \<le> sI + length ss" by (rule add_left_mono)
  from stride_10 [of sI] obtain j where j: "sI \<le> j" "j < sI + 10" "j mod 10 = 0"
    by (elim exE conjE)
  from j(2) l have "j < sI + length ss" by (rule less_le_trans)
  with j(1,3) show "\<exists>j. sI \<le> j \<and> j < sI + length ss \<and> j mod 10 = (0::nat)"
    by (intro exI [of _ j] conjI)
next
  assume "50 \<le> length ss"
  then have l: "sI + 50 \<le> sI + length ss" by (rule add_left_mono)
  from stride_50 [of sI] obtain j where j: "sI \<le> j" "j < sI + 50" "j mod 50 = 0"
    by (elim exE conjE)
  from j(2) l have "j < sI + length ss" by (rule less_le_trans)
  with j(1,3) show "\<exists>j. sI \<le> j \<and> j < sI + length ss \<and> j mod 50 = (0::nat)"
    by (intro exI [of _ j] conjI)
qed

text \<open>
  C10, as the claim states it, fails: the second pass of \<open>expandProperty\<close>, over every
  unit and atom of the input structure, has no deadline check, and \<open>wholeResidues\<close>
  checks the deadline after atomic units only. Here one deadline check is left: the
  first pass of \<open>expandProperty\<close> spends it, the deadline has then passed, and the
  second pass still visits all twenty atoms and the query returns; with the deadline
  passed, \<open>getWholeResidues\<close> copies a non-atomic unit and returns.
\<close>

theorem unchecked_loops_counterexample:
  "expandProperty (constQuery (Sequence source20 [[unit0\<lparr>elements := [0]\<rparr>]])) elementIndex
     (initialContext source20 (Some 1))
   = (Inr (Sequence source20 [[unit0\<lparr>elements := [0]\<rparr>, unit1\<lparr>elements := [0]\<rparr>]]),
      initialContext source20 (Some 0)) \<and>
   getWholeResidues sourceMixed [unit2]
     (initialContext sourceMixed (Some 0))
   = (Inr [unit2], initialContext sourceMixed (Some 0))"
proof -
  have 1: "expandProperty (constQuery (Sequence source20 [[unit0\<lparr>elements := [0]\<rparr>]])) elementIndex
     (initialContext source20 (Some 1))
   = (Inr (Sequence source20 [[unit0\<lparr>elements := [0]\<rparr>, unit1\<lparr>elements := [0]\<rparr>]]),
      initialContext source20 (Some 0))"
    by (simp add: ep_defs elementIndex_def source20_def unit0_def unit1_def)
  have 2: "getWholeResidues sourceMixed [unit2]
     (initialContext sourceMixed (Some 0))
   = (Inr [unit2], initialContext sourceMixed (Some 0))"
    by (simp add: getWholeResidues_def andThen_def subsetBuilder_def setUnit_def getStructure_def
        List.map_filter_simps unitById_def sourceMixed_def unit0_def unit1_def unit2_def)
  from 1 2 show ?thesis by blast
qed

text \<open>
  C10, amended. The deadline check runs after every atomic unit in \<open>wholeResidues\<close>,
  after every unit in \<open>includeSurroundings\<close>, after every structure whose index is a
  multiple of 10 in \<open>querySelection\<close> and in the first pass of \<open>expandProperty\<close>, and
  of 50 in \<open>intersectBy\<close> and \<open>exceptBy\<close>. So once the deadline has passed, at any
  point of these loops: the loop of \<open>wholeResidues\<close> raises the timeout at the next
  atomic unit, that of \<open>includeSurroundings\<close> at the next unit, those of
  \<open>intersectBy\<close> and \<open>exceptBy\<close> within 50 structures, the first pass of
  \<open>expandProperty\<close> within 10 structures, and the loop of \<open>querySelection\<close> stops
  with an error within 10 structures when its inner query does not move the deadline.
\<close>

theorem deadline_checked_at_bounded_stride:
  "(checksLeft c = Some 0 \<and> (\<exists>u \<in> set us. kind u = Atomic) \<longrightarrow>
      getWholeResidues_units b us c = (Inl Timeout, c)) \<and>
   (checksLeft c = Some 0 \<and> us \<noteq> [] \<longrightarrow>
      getIncludeSurroundings_units lookup r b us c = (Inl Timeout, c)) \<and>
   (checksLeft c = Some 0 \<and> 10 \<le> length ss \<and>
    (\<forall>c res c'. checksLeft c = Some 0 \<and> query c = (res, c') \<longrightarrow> checksLeft c' = Some 0) \<longrightarrow>
      (\<exists>e c'. forEachFrom sI ss (querySelection_step query) ret c = (Inl e, c'))) \<and>
   (checksLeft c = Some 0 \<and> 10 \<le> length ss \<longrightarrow>
      (\<exists>c'. forEachFrom sI ss (expandProperty_claim property) acc c = (Inl Timeout, c'))) \<and>
   (checksLeft c = Some 0 \<and> 50 \<le> length ss \<longrightarrow>
      forEachFrom sI ss (intersectBy_step U) ret c = (Inl Timeout, c)) \<and>
   (checksLeft c = Some 0 \<and> 50 \<le> length ss \<longrightarrow>
      forEachFrom sI ss (exceptBy_step U) ret c = (Inl Timeout, c))"
proof (intro conjI impI)
  assume "checksLeft c = Some 0 \<and> (\<exists>u \<in> set us. kind u = Atomic)"
  then show "getWholeResidues_units b us c = (Inl Timeout, c)" using units_stride by blast
next
  assume "checksLeft c = Some 0 \<and> us \<noteq> []"
  then show "getIncludeSurroundings_units lookup r b us c = (Inl Timeout, c)"
    using surroundings_stride by blast
next
  assume h: "checksLeft c = Some 0 \<and> 10 \<le> length ss \<and>
    (\<forall>c res c'. checksLeft c = Some 0 \<and> query c = (res, c') \<longrightarrow> checksLeft c' = Some 0)"
  then have q: "\<forall>c res c'. checksLeft c = Some 0 \<and> query c = (res, c') \<longrightarrow> checksLeft c' = Some 0"
    by blast
  have hit: "\<forall>s sI acc c. checksLeft c = Some 0 \<and> sI mod 10 = 0 \<longrightarrow>
                  (\<exists>e c'. querySelection_step query s sI acc c = (Inl e, c'))"
  proof (intro allI impI)
    fix s sI acc and c :: QueryContext
    assume "checksLeft c = Some 0 \<and> sI mod 10 = (0::nat)"
    then show "\<exists>e c'. querySelection_step query s sI acc c = (Inl e, c')"
      using querySelection_step_hit(1) [OF q, where c = c and sI = sI and s = s and ret = acc] by simp
  qed
  have keep: "\<forall>s sI acc c a c'. checksLeft c = Some 0 \<and>
      querySelection_step query s sI acc c = (Inr a, c') \<longrightarrow> checksLeft c' = Some 0"
  proof (intro allI impI)
    fix s sI acc c a c'
    assume "checksLeft c = Some 0 \<and> querySelection_step query s sI acc c = (Inr a, c')"
    then show "checksLeft c' = Some 0"
      using querySelection_step_hit(2) [OF q, where c = c and sI = sI and s = s and ret = acc and a = a and c' = c'] by simp
  qed
  from h have z: "checksLeft c = Some 0" and l: "10 \<le> length ss" by simp_all
  from forEachFrom_stride [of 10 "querySelection_step query", OF hit keep z
      stride_from_length(1) [OF l]]
  show "\<exists>e c'. forEachFrom sI ss (querySelection_step query) ret c = (Inl e, c')" .
next
  assume h: "checksLeft c = Some 0 \<and> 10 \<le> length ss"
  have hit: "\<forall>s sI acc c. checksLeft c = Some 0 \<and> sI mod 10 = 0 \<longrightarrow>
                  (\<exists>e c'. expandProperty_claim property s sI acc c = (Inl e, c'))"
  proof (intro allI impI)
    fix s sI acc and c :: QueryContext
    assume "checksLeft c = Some 0 \<and> sI mod 10 = (0::nat)"
    then obtain c' where "expandProperty_claim property s sI acc c = (Inl Timeout, c')"
      using expandProperty_claim_hit(1) [where c = c and sI = sI and s = s and acc = acc and property = property] by auto
    then show "\<exists>e c'. expandProperty_claim property s sI acc c = (Inl e, c')" by blast
  qed
  have keep: "\<forall>s sI acc c a c'. checksLeft c = Some 0 \<and>
      expandProperty_claim property s sI acc c = (Inr a, c') \<longrightarrow> checksLeft c' = Some 0"
  proof (intro allI impI)
    fix s sI acc c a c'
    assume "checksLeft c = Some 0 \<and> expandProperty_claim property s sI acc c = (Inr a, c')"
    then show "checksLeft c' = Some 0"
      using expandProperty_claim_hit(2) [where c = c and sI = sI and s = s and acc = acc and property = property and a = a and c' = c'] by simp
  qed
  from h have z: "checksLeft c = Some 0" and l: "10 \<le> length ss" by simp_all
  from forEachFrom_stride [of 10 "expandProperty_claim property", OF hit keep z
      stride_from_length(1) [OF l]]
  obtain e c' where run: "forEachFrom sI ss (expandProperty_claim property) acc c = (Inl e, c')"
    by blast
  have "\<forall>s sI acc c res c'. expandProperty_claim property s sI acc c = (res, c') \<longrightarrow>
      sameStacks c c' \<and> (\<forall>e. res = Inl e \<longrightarrow> e = Timeout)"
    using expandProperty_claim_stacks by blast
  from forEachFrom_keeps [of sameStacks "expandProperty_claim property" "\<lambda>e. e = Timeout",
      OF _ _ this run]
  have "e = Timeout" using sameStacks_refl sameStacks_trans by blast
  with run show "\<exists>c'. forEachFrom sI ss (expandProperty_claim property) acc c = (Inl Timeout, c')"
    by blast
next
  assume h: "checksLeft c = Some 0 \<and> 50 \<le> length ss"
  then have z: "checksLeft c = Some 0" and l: "50 \<le> length ss" by simp_all
  from forEachFrom_pure_stride [OF intersectBy_step_pure z stride_from_length(2) [OF l]]
  show "forEachFrom sI ss (intersectBy_step U) ret c = (Inl Timeout, c)" .
next
  assume h: "checksLeft c = Some 0 \<and> 50 \<le> length ss"
  then have z: "checksLeft c = Some 0" and l: "50 \<le> length ss" by simp_all
  from forEachFrom_pure_stride [OF exceptBy_step_pure z stride_from_length(2) [OF l]]
  show "forEachFrom sI ss (exceptBy_step U) ret c = (Inl Timeout, c)" .
qed

theorem deadline_checked_at_bounded_stride_witness:
  "getWholeResidues_units (subsetBuilder sourceMixed) [unit2, unit0, unit1]
      (initialContext sourceMixed (Some 0))
     = (Inl Timeout, initialContext sourceMixed (Some 0)) \<and>
   getIncludeSurroundings_units (withinRadius sourceMixed) 1
      (StructureUniqueSubsetBuilder sourceMixed) [unit2] (initialContext sourceMixed (Some 0))
     = (Inl Timeout, initialContext sourceMixed (Some 0)) \<and>
   (\<exists>e c'. forEachFrom 1 (replicate 10 source20)
      (querySelection_step (constQuery (Singletons source20 source20)))
      (UniqueBuilder source20) (initialContext source20 (Some 0)) = (Inl e, c')) \<and>
   (\<exists>c'. forEachFrom 1 (replicate 10 source20) (expandProperty_claim residueOf)
      (Map.empty, []) (initialContext source20 (Some 0)) = (Inl Timeout, c')) \<and>
   forEachFrom 1 (replicate 50 source20) (intersectBy_step source20) (UniqueBuilder source20)
      (initialContext source20 (Some 0))
     = (Inl Timeout, initialContext source20 (Some 0)) \<and>
   forEachFrom 1 (replicate 50 source20) (exceptBy_step source20) (UniqueBuilder source20)
      (initialContext source20 (Some 0))
     = (Inl Timeout, initialContext source20 (Some 0))"
proof -
  let ?c = "initialContext source20 (Some 0)"
  let ?m = "initialContext sourceMixed (Some 0)"
  have z: "checksLeft ?c = Some 0" "checksLeft ?m = Some 0" by (simp_all add: initialContext_def)
  have a: "\<exists>u \<in> set [unit2, unit0, unit1]. kind u = Atomic" by (simp add: unit0_def)
  have n: "[unit2] \<noteq> []" by simp
  have l10: "10 \<le> length (replicate 10 source20)" by simp
  have l50: "50 \<le> length (replicate 50 source20)" by simp
  have q: "\<forall>c res c'. checksLeft c = Some 0 \<and>
      constQuery (Singletons source20 source20) c = (res, c') \<longrightarrow> checksLeft c' = Some 0"
    by (simp add: constQuery_def)
  note t = deadline_checked_at_bounded_stride
  note 1 = t [where c = ?m and us = "[unit2, unit0, unit1]" and b = "subsetBuilder sourceMixed",
      THEN conjunct1, rule_format, OF conjI [OF z(2) a]]
  note 2 = t [where c = ?m and us = "[unit2]" and lookup = "withinRadius sourceMixed" and r = 1
      and b = "StructureUniqueSubsetBuilder sourceMixed",
      THEN conjunct2, THEN conjunct1, rule_format, OF conjI [OF z(2) n]]
  note 3 = t [where c = ?c and ss = "replicate 10 source20" and sI = 1
      and query = "constQuery (Singletons source20 source20)" and ret = "UniqueBuilder source20",
      THEN conjunct2, THEN conjunct2, THEN conjunct1, rule_format,
      OF conjI [OF z(1) conjI [OF l10 q]]]
  note 4 = t [where c = ?c and ss = "replicate 10 source20" and sI = 1
      and property = residueOf and acc = "(Map.empty, [])",
      THEN conjunct2, THEN conjunct2, THEN conjunct2, THEN conjunct1, rule_format,
      OF conjI [OF z(1) l10]]
  note 5 = t [where c = ?c and ss = "replicate 50 source20" and sI = 1
      and U = source20 and ret = "UniqueBuilder source20",
      THEN conjunct2, THEN conjunct2, THEN conjunct2, THEN conjunct2, THEN conjunct1, rule_format,
      OF conjI [OF z(1) l50]]
  note 6 = t [where c = ?c and ss = "replicate 50 source20" and sI = 1
      and U = source20 and ret = "UniqueBuilder source20",
      THEN conjunct2, THEN conjunct2, THEN conjunct2, THEN conjunct2, THEN conjunct2, rule_format,
      OF conjI [OF z(1) l50]]
  show ?thesis by (intro conjI) (rule 1 2 3 4 5 6)+
qed

text \<open>
  C1. The code does not do what the claim says. The statement of line 207 indexes the
  claiming selection indices by \<open>i\<close>, the position of the atom in its unit, not by the
  loop variable \<open>_sI\<close>. With residues of five atoms as the property and a selection
  of one structure holding atom 7, atom 5 of the input structure has the claimed value
  and stands at position 5: \<open>indices[5]\<close> is undefined and the query raises a type
  error. With two structures holding atoms 5 and 6, both claiming the same value, over
  an input structure of just these two atoms, each output structure gets one atom,
  where the claim puts both atoms in both.
\<close>

theorem expandProperty_indexes_by_position:
  "fst (expandProperty (constQuery (Sequence source20 [[unit0\<lparr>elements := [7]\<rparr>]])) residueOf
     (initialContext source20 None))
   = Inl TypeError \<and>
   residueOf (setCursorElement 5 (initialContext [unit0\<lparr>elements := [5, 6]\<rparr>] None))
     = residueOf (setCursorElement 6 (initialContext [unit0\<lparr>elements := [5, 6]\<rparr>] None)) \<and>
   expandProperty
     (constQuery (Sequence [unit0\<lparr>elements := [5, 6]\<rparr>]
        [[unit0\<lparr>elements := [5]\<rparr>], [unit0\<lparr>elements := [6]\<rparr>]])) residueOf
     (initialContext [unit0\<lparr>elements := [5, 6]\<rparr>] None)
   = (Inr (Sequence [unit0\<lparr>elements := [5, 6]\<rparr>]
        [[unit0\<lparr>elements := [5]\<rparr>], [unit0\<lparr>elements := [6]\<rparr>]]),
      initialContext [unit0\<lparr>elements := [5, 6]\<rparr>] None)"
proof -
  have "residueOf (setCursorElement 5 (initialContext [unit0\<lparr>elements := [5, 6]\<rparr>] None))
     = residueOf (setCursorElement 6 (initialContext [unit0\<lparr>elements := [5, 6]\<rparr>] None))"
    by (simp add: residueOf_def setCursorElement_def initialContext_def)
  with expandProperty_type_error expandProperty_example show ?thesis by blast
qed

end
